theory Spec2Isabelle
  imports Complex_Main "HOL-Library.Word" "HOL-Library.Monad_Syntax" "HOL-Library.Log_Nat"
begin

section \<open>The ISHNE parser of \<^verbatim>\<open>src/src/main.ts\<close>\<close>

text \<open>
  The source file declares \<^verbatim>\<open>IshneParser\<close> twice. This development embeds the second
  declaration (lines 202 to 501), the one with \<^verbatim>\<open>readString\<close>,
  \<^verbatim>\<open>calculateActualSamples\<close> and the exporters.

  Modelling conventions.
  \<^item> A \<^verbatim>\<open>Uint8Array\<close> is a list of bytes. The \<^verbatim>\<open>DataView\<close> is built over
    \<^verbatim>\<open>buffer.buffer\<close>; the array is taken to cover its whole \<^verbatim>\<open>ArrayBuffer\<close>
    (byte offset 0), as the arrays returned by \<^verbatim>\<open>Deno.readFileSync\<close> do, so both views
    see the same bytes at the same indices.
  \<^item> A JavaScript string is a list of UTF-16 code units.
  \<^item> A JavaScript number is a binary64 value. Integer-valued quantities whose magnitude
    stays below \<open>2\<^sup>5\<^sup>3\<close> (byte offsets, loop counters, header fields, products of two
    16-bit fields) are exact in binary64 and are modelled on \<open>int\<close> and \<open>nat\<close>. Where
    the source divides, the result is a \<open>jsnum\<close>: a rational rounded to binary64 by
    \<open>fl64\<close>, or one of the three special values. Zero is unsigned in the model: no divisor
    of the source can be \<open>-0\<close>, and \<^verbatim>\<open>toFixed\<close> and string conversion print both zeros alike.
  \<^item> A thrown exception is the left summand of a sum type; a call that never returns is
    \<open>None\<close>.
\<close>

subsection \<open>Strings and errors\<close>

type_synonym byte = "8 word"
type_synonym jsstring = "16 word list"

definition lit :: "string \<Rightarrow> jsstring" where
  "lit s = map of_char s"

definition nl :: jsstring where
  "nl = [10]"

definition tab :: jsstring where
  "tab = [9]"

datatype js_error = Error jsstring | RangeError | TypeError

datatype console = Warn jsstring | ErrorLog jsstring

text \<open>\<^verbatim>\<open>xs[i]\<close> on an array: \<open>None\<close> stands for \<^verbatim>\<open>undefined\<close>.\<close>

definition nth_opt :: "'a list \<Rightarrow> nat \<Rightarrow> 'a option" where
  "nth_opt xs i = (if i < length xs then Some (xs ! i) else None)"

text \<open>\<^verbatim>\<open>Array.prototype.join\<close> on an array of strings.\<close>

fun join :: "jsstring \<Rightarrow> jsstring list \<Rightarrow> jsstring" where
  "join sep [] = []"
| "join sep [x] = x"
| "join sep (x # y # ys) = x @ sep @ join sep (y # ys)"

text \<open>The first error of a sequence of results, or all the values.\<close>

fun collect :: "(js_error + 'a) list \<Rightarrow> js_error + 'a list" where
  "collect [] = Inr []"
| "collect (Inl e # rs) = Inl e"
| "collect (Inr v # rs) = (case collect rs of Inl e \<Rightarrow> Inl e | Inr vs \<Rightarrow> Inr (v # vs))"

subsection \<open>Numbers\<close>

datatype jsnum = Fin rat | PosInf | NegInf | NaN

definition pow2 :: "int \<Rightarrow> rat" where
  "pow2 e = (if 0 \<le> e then 2 ^ nat e else 1 / 2 ^ nat (- e))"

definition pow10 :: "int \<Rightarrow> rat" where
  "pow10 e = (if 0 \<le> e then 10 ^ nat e else 1 / 10 ^ nat (- e))"

text \<open>The binary exponent of a non-zero rational: \<open>2\<^sup>e \<le> \<bar>q\<bar> < 2\<^sup>e\<^sup>+\<^sup>1\<close>.\<close>

definition binade :: "rat \<Rightarrow> int" where
  "binade q = (if 1 \<le> \<bar>q\<bar> then bitlen \<lfloor>\<bar>q\<bar>\<rfloor> - 1 else - bitlen (\<lceil>1 / \<bar>q\<bar>\<rceil> - 1))"

definition round_half_even :: "rat \<Rightarrow> int" where
  "round_half_even t = (let f = \<lfloor>t\<rfloor>; r = t - of_int f in
     if r < 1 / 2 then f else if 1 / 2 < r then f + 1 else if even f then f else f + 1)"

text \<open>
  Rounding to binary64, to nearest with ties to even: 53 significant bits, least
  exponent \<open>-1074\<close> (subnormals), overflow to infinity from \<open>2\<^sup>1\<^sup>0\<^sup>2\<^sup>4\<close>.
\<close>

definition fl64 :: "rat \<Rightarrow> jsnum" where
  "fl64 q = (if q = 0 then Fin 0 else
     let e = max (binade q - 52) (- 1074);
         m = round_half_even (\<bar>q\<bar> / pow2 e);
         v = of_int m * pow2 e
     in if pow2 1024 \<le> v then (if 0 < q then PosInf else NegInf) else Fin (sgn q * v))"

text \<open>The operators \<^verbatim>\<open>/\<close> and \<^verbatim>\<open>*\<close> of IEEE 754.\<close>

fun js_div :: "jsnum \<Rightarrow> jsnum \<Rightarrow> jsnum" where
  "js_div (Fin a) (Fin b) =
     (if b = 0 then (if a = 0 then NaN else if 0 < a then PosInf else NegInf)
      else fl64 (a / b))"
| "js_div (Fin a) PosInf = Fin 0"
| "js_div (Fin a) NegInf = Fin 0"
| "js_div PosInf (Fin b) = (if 0 \<le> b then PosInf else NegInf)"
| "js_div NegInf (Fin b) = (if 0 \<le> b then NegInf else PosInf)"
| "js_div _ _ = NaN"

fun js_mul :: "jsnum \<Rightarrow> jsnum \<Rightarrow> jsnum" where
  "js_mul (Fin a) (Fin b) = fl64 (a * b)"
| "js_mul NaN _ = NaN"
| "js_mul _ NaN = NaN"
| "js_mul (Fin a) PosInf = (if a = 0 then NaN else if 0 < a then PosInf else NegInf)"
| "js_mul (Fin a) NegInf = (if a = 0 then NaN else if 0 < a then NegInf else PosInf)"
| "js_mul PosInf (Fin b) = (if b = 0 then NaN else if 0 < b then PosInf else NegInf)"
| "js_mul NegInf (Fin b) = (if b = 0 then NaN else if 0 < b then NegInf else PosInf)"
| "js_mul PosInf PosInf = PosInf"
| "js_mul NegInf NegInf = PosInf"
| "js_mul PosInf NegInf = NegInf"
| "js_mul NegInf PosInf = NegInf"

text \<open>\<^verbatim>\<open>Math.floor\<close>, the operator \<^verbatim>\<open><\<close> and the operator \<^verbatim>\<open>!==\<close> on numbers.\<close>

fun js_floor :: "jsnum \<Rightarrow> jsnum" where
  "js_floor (Fin q) = Fin (of_int \<lfloor>q\<rfloor>)"
| "js_floor x = x"

fun js_lt :: "jsnum \<Rightarrow> jsnum \<Rightarrow> bool" where
  "js_lt (Fin a) (Fin b) = (a < b)"
| "js_lt (Fin a) PosInf = True"
| "js_lt NegInf (Fin b) = True"
| "js_lt NegInf PosInf = True"
| "js_lt _ _ = False"

definition js_neq :: "jsnum \<Rightarrow> jsnum \<Rightarrow> bool" where
  "js_neq x y = (x = NaN \<or> y = NaN \<or> x \<noteq> y)"

text \<open>A possibly \<^verbatim>\<open>undefined\<close> integer used as an operand: \<^verbatim>\<open>undefined\<close> becomes \<^verbatim>\<open>NaN\<close>.\<close>

definition to_num :: "int option \<Rightarrow> jsnum" where
  "to_num v = (case v of None \<Rightarrow> NaN | Some n \<Rightarrow> Fin (of_int n))"

subsection \<open>Numbers to strings and back\<close>

definition digit :: "int \<Rightarrow> 16 word" where
  "digit d = of_int (48 + d)"

text \<open>The decimal digits of a non-negative integer.\<close>

function show_int :: "int \<Rightarrow> jsstring" where
  "show_int n = (if n < 10 then [digit n] else show_int (n div 10) @ [digit (n mod 10)])"
  by pat_completeness auto
termination
  by (relation "measure nat") auto

declare show_int.simps [simp del]

text \<open>The decimal exponent of a positive rational: \<open>10\<^sup>n\<^sup>-\<^sup>1 \<le> q < 10\<^sup>n\<close>.\<close>

definition decade :: "rat \<Rightarrow> int" where
  "decade q = (if 1 \<le> q then int (length (show_int \<lfloor>q\<rfloor>))
     else 1 - int (length (show_int (\<lceil>1 / q\<rceil> - 1))))"

definition strip_zeros :: "jsstring \<Rightarrow> jsstring" where
  "strip_zeros ds = rev (dropWhile (\<lambda>c. c = 48) (rev ds))"

text \<open>
  \<^verbatim>\<open>Number::toString\<close>, step 5: the least number \<open>k\<close> of digits such that some
  \<open>s\<close> of \<open>k\<close> digits has \<open>s \<times> 10\<^sup>n\<^sup>-\<^sup>k\<close> rounding to \<open>x\<close>; among the two
  candidates around \<open>x\<close>, the closer one. The result is the digit string and \<open>n\<close>.
\<close>

definition candidate :: "rat \<Rightarrow> nat \<Rightarrow> (jsstring \<times> int) option" where
  "candidate x k =
     (let n0 = decade x; scale = pow10 (n0 - int k);
          lo = \<lfloor>x / scale\<rfloor>; hi = lo + 1;
          lo_ok = (fl64 (of_int lo * scale) = Fin x);
          hi_ok = (fl64 (of_int hi * scale) = Fin x);
          pick = (\<lambda>s. let ds = show_int s in
                   Some (strip_zeros ds, n0 - int k + int (length ds)))
      in if lo_ok \<and> hi_ok then
           (if x - of_int lo * scale < of_int hi * scale - x then pick lo else pick hi)
         else if lo_ok then pick lo
         else if hi_ok then pick hi
         else None)"

fun shortest :: "rat \<Rightarrow> nat list \<Rightarrow> jsstring \<times> int" where
  "shortest x [] = ([], 0)"
| "shortest x (k # ks) = (case candidate x k of Some r \<Rightarrow> r | None \<Rightarrow> shortest x ks)"

definition show_positive :: "rat \<Rightarrow> jsstring" where
  "show_positive x =
     (let (ds, n) = shortest x [1 ..< 18]; k = int (length ds) in
      if k \<le> n \<and> n \<le> 21 then ds @ replicate (nat (n - k)) 48
      else if 0 < n \<and> n \<le> 21 then take (nat n) ds @ lit ''.'' @ drop (nat n) ds
      else if - 6 < n \<and> n \<le> 0 then lit ''0.'' @ replicate (nat (- n)) 48 @ ds
      else
        let e = n - 1;
            es = (if e < 0 then lit ''-'' else lit ''+'') @ show_int \<bar>e\<bar>
        in if k = 1 then ds @ lit ''e'' @ es
           else take 1 ds @ lit ''.'' @ drop 1 ds @ lit ''e'' @ es)"

text \<open>\<^verbatim>\<open>Number::toString\<close> with radix 10, as a template literal applies it.\<close>

definition Number_toString :: "jsnum \<Rightarrow> jsstring" where
  "Number_toString x = (case x of
       NaN \<Rightarrow> lit ''NaN''
     | PosInf \<Rightarrow> lit ''Infinity''
     | NegInf \<Rightarrow> lit ''-Infinity''
     | Fin q \<Rightarrow> if q = 0 then lit ''0''
                else if q < 0 then lit ''-'' @ show_positive (- q)
                else show_positive q)"

text \<open>
  \<^verbatim>\<open>Number.prototype.toFixed\<close>. The argument \<open>f\<close> is the number of fraction digits after
  \<^verbatim>\<open>ToIntegerOrInfinity\<close>. For a finite \<open>x\<close> below \<open>10\<^sup>2\<^sup>1\<close> the digits are those
  of the integer \<open>n\<close> with \<open>n / 10\<^sup>f\<close> nearest to \<open>\<bar>x\<bar>\<close>, the larger \<open>n\<close> on a tie.
\<close>

definition fixed_digits :: "rat \<Rightarrow> nat \<Rightarrow> int" where
  "fixed_digits a f = \<lfloor>a * 10 ^ f + 1 / 2\<rfloor>"

definition fixed_string :: "int \<Rightarrow> nat \<Rightarrow> jsstring" where
  "fixed_string n f =
     (let m = show_int n in
      if f = 0 then m
      else
        let k = length m;
            m' = (if k \<le> f then replicate (f + 1 - k) 48 @ m else m);
            k' = length m'
        in take (k' - f) m' @ lit ''.'' @ drop (k' - f) m')"

definition fixed_notation :: "jsnum \<Rightarrow> nat \<Rightarrow> jsstring" where
  "fixed_notation x f = (case x of
       Fin q \<Rightarrow>
         if 10 ^ 21 \<le> \<bar>q\<bar> then Number_toString x
         else (if q < 0 then lit ''-'' else []) @ fixed_string (fixed_digits \<bar>q\<bar> f) f
     | _ \<Rightarrow> Number_toString x)"

definition toFixed :: "jsnum \<Rightarrow> int \<Rightarrow> js_error + jsstring" where
  "toFixed x f =
     (if f < 0 \<or> 100 < f then Inl RangeError else Inr (fixed_notation x (nat f)))"

text \<open>
  \<^verbatim>\<open>Number(s)\<close> on a string: the empty string, a signed \<^verbatim>\<open>Infinity\<close>, or a signed decimal
  literal with optional fraction and exponent; anything else is \<^verbatim>\<open>NaN\<close>. The source
  applies it to results of \<^verbatim>\<open>toFixed\<close> only, so white space and the prefixed radix
  literals, which \<^verbatim>\<open>toFixed\<close> never produces, are left out.
\<close>

definition is_digit :: "16 word \<Rightarrow> bool" where
  "is_digit c = (48 \<le> c \<and> c \<le> 57)"

definition digits_value :: "jsstring \<Rightarrow> int" where
  "digits_value ds = foldl (\<lambda>v c. 10 * v + (uint c - 48)) 0 ds"

definition parse_exponent :: "jsstring \<Rightarrow> int option" where
  "parse_exponent r =
     (let (neg, ds) = (case r of
            [] \<Rightarrow> (False, [])
          | d # r' \<Rightarrow> if d = 45 then (True, r') else if d = 43 then (False, r') else (False, r))
      in if ds \<noteq> [] \<and> list_all is_digit ds
         then Some ((if neg then - 1 else 1) * digits_value ds) else None)"

definition parse_unsigned :: "jsstring \<Rightarrow> rat option" where
  "parse_unsigned s =
     (let ip = takeWhile is_digit s; r1 = dropWhile is_digit s;
          (fp, r2) = (case r1 of
             [] \<Rightarrow> ([], [])
           | c # r \<Rightarrow> if c = 46 then (takeWhile is_digit r, dropWhile is_digit r) else ([], r1))
      in if ip = [] \<and> fp = [] then None
         else
           let mant = of_int (digits_value (ip @ fp)) * pow10 (- int (length fp)) in
           case r2 of
             [] \<Rightarrow> Some mant
           | c # r \<Rightarrow> if c = 101 \<or> c = 69
                then map_option (\<lambda>e. mant * pow10 e) (parse_exponent r)
                else None)"

definition js_Number :: "jsstring \<Rightarrow> jsnum" where
  "js_Number s =
     (if s = [] then Fin 0
      else
        let (neg, r) = (case s of
               [] \<Rightarrow> (False, [])
             | c # r' \<Rightarrow> if c = 45 then (True, r') else if c = 43 then (False, r') else (False, s))
        in if r = lit ''Infinity'' then (if neg then NegInf else PosInf)
           else case parse_unsigned r of
               None \<Rightarrow> NaN
             | Some v \<Rightarrow> fl64 (if neg then - v else v))"

subsection \<open>Bytes: \<^verbatim>\<open>Uint8Array\<close>, \<^verbatim>\<open>DataView\<close>, \<^verbatim>\<open>TextDecoder\<close>\<close>

text \<open>\<^verbatim>\<open>Uint8Array.prototype.slice(s, e)\<close> for non-negative bounds: both are clamped.\<close>

definition slice :: "byte list \<Rightarrow> nat \<Rightarrow> nat \<Rightarrow> byte list" where
  "slice buf s e = take (e - s) (drop s buf)"

text \<open>
  The little-endian getters of \<^verbatim>\<open>DataView\<close>; \<open>None\<close> is the \<^verbatim>\<open>RangeError\<close> of a read
  that does not fit into the buffer. Every offset the source passes is non-negative.
\<close>

definition getUint16 :: "byte list \<Rightarrow> nat \<Rightarrow> int option" where
  "getUint16 buf off =
     (if off + 2 \<le> length buf
      then Some (uint (buf ! off) + 256 * uint (buf ! (off + 1)))
      else None)"

definition int16_at :: "byte list \<Rightarrow> nat \<Rightarrow> int" where
  "int16_at buf off =
     (let u = uint (buf ! off) + 256 * uint (buf ! (off + 1))
      in if 32768 \<le> u then u - 65536 else u)"

definition getInt16 :: "byte list \<Rightarrow> nat \<Rightarrow> int option" where
  "getInt16 buf off = (if off + 2 \<le> length buf then Some (int16_at buf off) else None)"

definition getUint32 :: "byte list \<Rightarrow> nat \<Rightarrow> int option" where
  "getUint32 buf off =
     (if off + 4 \<le> length buf
      then Some (uint (buf ! off) + 256 * uint (buf ! (off + 1))
                 + 65536 * uint (buf ! (off + 2)) + 16777216 * uint (buf ! (off + 3)))
      else None)"

text \<open>
  \<^verbatim>\<open>new TextDecoder("ascii")\<close>: in the Encoding Standard the label \<^verbatim>\<open>ascii\<close> names the
  single-byte encoding windows-1252. Bytes below \<open>0x80\<close> and from \<open>0xA0\<close> decode to the
  code point of the same value, the 32 bytes between through the index below.
\<close>

definition windows_1252 :: "16 word list" where
  "windows_1252 =
     [0x20AC, 0x0081, 0x201A, 0x0192, 0x201E, 0x2026, 0x2020, 0x2021,
      0x02C6, 0x2030, 0x0160, 0x2039, 0x0152, 0x008D, 0x017D, 0x008F,
      0x0090, 0x2018, 0x2019, 0x201C, 0x201D, 0x2022, 0x2013, 0x2014,
      0x02DC, 0x2122, 0x0161, 0x203A, 0x0153, 0x009D, 0x017E, 0x0178]"

definition decode_byte :: "byte \<Rightarrow> 16 word" where
  "decode_byte b =
     (if 0x80 \<le> b \<and> b < 0xA0 then windows_1252 ! (unat b - 128) else ucast b)"

definition decode :: "byte list \<Rightarrow> jsstring" where
  "decode bs = map decode_byte bs"

text \<open>\<^verbatim>\<open>s.replace(/\x00+$/, '')\<close>: the maximal run of NUL code units at the end is removed.\<close>

definition strip_trailing_nul :: "jsstring \<Rightarrow> jsstring" where
  "strip_trailing_nul s = rev (dropWhile (\<lambda>c. c = 0) (rev s))"

subsection \<open>The parser object and \<^verbatim>\<open>parseHeader\<close>\<close>

record IshneHeader =
  varLengthBlockSize :: int
  sampleSizeEcg :: int
  offsetVarLengthBlock :: int
  offsetEcgBlock :: int
  fileVersion :: int
  firstName :: jsstring
  lastName :: jsstring
  subjectId :: jsstring
  sex :: int
  race :: int
  birthDate :: "int list"
  recordDate :: "int list"
  fileDate :: "int list"
  startTime :: "int list"
  nLeads :: int
  leadSpec :: "int list"
  leadQuality :: "int list"
  resolution :: "int list"
  pacemaker :: int
  recorder :: jsstring
  samplingRate :: int
  proprietary :: jsstring
  copyright :: jsstring

record IshneParser =
  buffer :: "byte list"
  header :: "IshneHeader option"

definition readString :: "byte list \<Rightarrow> nat \<Rightarrow> nat \<Rightarrow> jsstring" where
  "readString buf offset len = strip_trailing_nul (decode (slice buf offset (offset + len)))"

definition HEADER_START :: nat where
  "HEADER_START = 10"

text \<open>\<^verbatim>\<open>Array.from({ length: 12 }, (_, i) => getInt16(base + i * 2, true))\<close>\<close>

definition getInt16_array :: "byte list \<Rightarrow> nat \<Rightarrow> int list option" where
  "getInt16_array buf base = those (map (\<lambda>i. getInt16 buf (base + i * 2)) [0 ..< 12])"

text \<open>
  The object literal of \<^verbatim>\<open>parseHeader\<close>, its properties evaluated in source order;
  \<open>None\<close> when one of the \<^verbatim>\<open>DataView\<close> reads throws.
\<close>

definition read_header :: "byte list \<Rightarrow> IshneHeader option" where
  "read_header buf = do {
     v_varLengthBlockSize \<leftarrow> getUint32 buf (HEADER_START + 0);
     v_sampleSizeEcg \<leftarrow> getUint32 buf (HEADER_START + 4);
     v_offsetVarLengthBlock \<leftarrow> getUint32 buf (HEADER_START + 8);
     v_offsetEcgBlock \<leftarrow> getUint32 buf (HEADER_START + 12);
     v_fileVersion \<leftarrow> getUint16 buf (HEADER_START + 16);
     let v_firstName = readString buf (HEADER_START + 18) 40;
     let v_lastName = readString buf (HEADER_START + 58) 40;
     let v_subjectId = readString buf (HEADER_START + 98) 20;
     v_sex \<leftarrow> getUint16 buf (HEADER_START + 118);
     v_race \<leftarrow> getUint16 buf (HEADER_START + 120);
     b0 \<leftarrow> getUint16 buf (HEADER_START + 122);
     b1 \<leftarrow> getUint16 buf (HEADER_START + 124);
     b2 \<leftarrow> getUint16 buf (HEADER_START + 126);
     r0 \<leftarrow> getUint16 buf (HEADER_START + 128);
     r1 \<leftarrow> getUint16 buf (HEADER_START + 130);
     r2 \<leftarrow> getUint16 buf (HEADER_START + 132);
     f0 \<leftarrow> getUint16 buf (HEADER_START + 134);
     f1 \<leftarrow> getUint16 buf (HEADER_START + 136);
     f2 \<leftarrow> getUint16 buf (HEADER_START + 138);
     s0 \<leftarrow> getUint16 buf (HEADER_START + 140);
     s1 \<leftarrow> getUint16 buf (HEADER_START + 142);
     s2 \<leftarrow> getUint16 buf (HEADER_START + 144);
     v_nLeads \<leftarrow> getUint16 buf (HEADER_START + 146);
     v_leadSpec \<leftarrow> getInt16_array buf (HEADER_START + 148);
     v_leadQuality \<leftarrow> getInt16_array buf (HEADER_START + 172);
     v_resolution \<leftarrow> getInt16_array buf (HEADER_START + 196);
     v_pacemaker \<leftarrow> getUint16 buf (HEADER_START + 220);
     let v_recorder = readString buf (HEADER_START + 222) 40;
     v_samplingRate \<leftarrow> getUint16 buf (HEADER_START + 262);
     let v_proprietary = readString buf (HEADER_START + 264) 80;
     let v_copyright = readString buf (HEADER_START + 344) 80;
     Some \<lparr> varLengthBlockSize = v_varLengthBlockSize,
            sampleSizeEcg = v_sampleSizeEcg,
            offsetVarLengthBlock = v_offsetVarLengthBlock,
            offsetEcgBlock = v_offsetEcgBlock,
            fileVersion = v_fileVersion,
            firstName = v_firstName,
            lastName = v_lastName,
            subjectId = v_subjectId,
            sex = v_sex,
            race = v_race,
            birthDate = [b0, b1, b2],
            recordDate = [r0, r1, r2],
            fileDate = [f0, f1, f2],
            startTime = [s0, s1, s2],
            nLeads = v_nLeads,
            leadSpec = v_leadSpec,
            leadQuality = v_leadQuality,
            resolution = v_resolution,
            pacemaker = v_pacemaker,
            recorder = v_recorder,
            samplingRate = v_samplingRate,
            proprietary = v_proprietary,
            copyright = v_copyright \<rparr>
   }"

text \<open>
  \<^verbatim>\<open>parseHeader\<close> returns the header or the exception, and the parser object, whose
  \<^verbatim>\<open>header\<close> field is assigned only when the object literal was built.
\<close>

definition parseHeader :: "IshneParser \<Rightarrow> (js_error + IshneHeader) \<times> IshneParser" where
  "parseHeader p =
     (let magicNumber = readString (buffer p) 0 8 in
      if magicNumber \<noteq> lit ''ISHNE1.0''
      then (Inl (Error (lit ''Invalid ISHNE file format'')), p)
      else case read_header (buffer p) of
          None \<Rightarrow> (Inl RangeError, p)
        | Some h \<Rightarrow> (Inr h, p\<lparr>header := Some h\<rparr>))"

subsection \<open>\<^verbatim>\<open>calculateActualSamples\<close>, \<^verbatim>\<open>parseEcgData\<close>, \<^verbatim>\<open>getEcgSummary\<close>\<close>

text \<open>\<^verbatim>\<open>Number::toString\<close> on an integer of magnitude at most \<open>2\<^sup>5\<^sup>3\<close>: its digits.\<close>

definition int_toString :: "int \<Rightarrow> jsstring" where
  "int_toString n = (if n < 0 then lit ''-'' @ show_int (- n) else show_int n)"

definition calculateActualSamples :: "IshneParser \<Rightarrow> js_error + jsnum" where
  "calculateActualSamples p =
     (case header p of
        None \<Rightarrow> Inl (Error (lit ''Header must be parsed first''))
      | Some h \<Rightarrow>
          let availableBytes = int (length (buffer p)) - offsetEcgBlock h;
              actualSamples =
                js_floor (js_div (Fin (of_int availableBytes)) (Fin (of_int (2 * nLeads h))))
          in Inr actualSamples)"

text \<open>
  One lead's samples: an array whose slots are empty (\<open>None\<close>) until assigned.
  \<^verbatim>\<open>new Array(len)\<close> throws a \<^verbatim>\<open>RangeError\<close> unless \<open>len\<close> is an integer from
  \<open>0\<close> to \<open>2\<^sup>3\<^sup>2 - 1\<close>. \<^verbatim>\<open>Array.from({ length: n }, f)\<close> calls \<open>f\<close> once per element,
  so not at all when \<open>n = 0\<close>. An assignment past the end of an array extends it.
\<close>

type_synonym ecg = "int option list list"

definition new_Array :: "jsnum \<Rightarrow> js_error + int option list" where
  "new_Array len = (case len of
       Fin q \<Rightarrow> if of_int \<lfloor>q\<rfloor> = q \<and> 0 \<le> q \<and> q < 2 ^ 32
                then Inr (replicate (nat \<lfloor>q\<rfloor>) None) else Inl RangeError
     | _ \<Rightarrow> Inl RangeError)"

definition Array_from :: "nat \<Rightarrow> js_error + 'a \<Rightarrow> js_error + 'a list" where
  "Array_from n r =
     (if n = 0 then Inr []
      else case r of Inl e \<Rightarrow> Inl e | Inr x \<Rightarrow> Inr (replicate n x))"

definition array_set :: "int option list \<Rightarrow> nat \<Rightarrow> int \<Rightarrow> int option list" where
  "array_set xs i v =
     (if i < length xs then xs[i := Some v]
      else xs @ replicate (i - length xs) None @ [Some v])"

text \<open>\<^verbatim>\<open>offsetEcgBlock + ((sample * nLeads + lead) * 2)\<close>\<close>

definition read_offset :: "int \<Rightarrow> nat \<Rightarrow> nat \<Rightarrow> nat \<Rightarrow> int" where
  "read_offset off n sample lead = off + ((int sample * int n + int lead) * 2)"

text \<open>The inner loop, over the leads still to visit, for one value of \<^verbatim>\<open>sample\<close>.\<close>

fun lead_loop :: "byte list \<Rightarrow> int \<Rightarrow> nat \<Rightarrow> nat \<Rightarrow> nat list \<Rightarrow> ecg \<Rightarrow> js_error + ecg" where
  "lead_loop buf off n sample [] ecgData = Inr ecgData"
| "lead_loop buf off n sample (lead # leads) ecgData =
     (case getInt16 buf (nat (read_offset off n sample lead)) of
        None \<Rightarrow> Inl RangeError
      | Some v \<Rightarrow>
          (case nth_opt ecgData lead of
             None \<Rightarrow> Inl TypeError
           | Some arr \<Rightarrow>
               lead_loop buf off n sample leads (ecgData[lead := array_set arr sample v])))"

text \<open>
  The outer loop. Its bound \<^verbatim>\<open>samplesPerLead\<close> may be infinite, so the loop is a partial
  function: \<open>None\<close> when it runs forever.
\<close>

partial_function (option) sample_loop ::
  "byte list \<Rightarrow> int \<Rightarrow> nat \<Rightarrow> jsnum \<Rightarrow> nat \<Rightarrow> ecg \<Rightarrow> (js_error + ecg) option" where
  "sample_loop buf off n samplesPerLead sample ecgData =
     (if js_lt (Fin (of_nat sample)) samplesPerLead
      then (case lead_loop buf off n sample [0 ..< n] ecgData of
              Inl e \<Rightarrow> Some (Inl e)
            | Inr ecgData' \<Rightarrow> sample_loop buf off n samplesPerLead (sample + 1) ecgData')
      else Some (Inr ecgData))"

declare sample_loop.simps [code]

definition mismatch_warning :: "jsnum \<Rightarrow> int \<Rightarrow> console" where
  "mismatch_warning samplesPerLead declared =
     Warn (lit ''Warning: Actual number of samples ('' @ Number_toString samplesPerLead @
           lit '') differs from header metadata ('' @ int_toString declared @ lit '')'')"

definition catch_log :: "IshneParser \<Rightarrow> IshneHeader \<Rightarrow> jsnum \<Rightarrow> console list" where
  "catch_log p h samplesPerLead =
     [ErrorLog (lit ''Error parsing ECG data:''),
      ErrorLog (lit ''Buffer length: '' @ int_toString (int (length (buffer p)))),
      ErrorLog (lit ''ECG block offset: '' @ int_toString (offsetEcgBlock h)),
      ErrorLog (lit ''Actual samples per lead: '' @ Number_toString samplesPerLead),
      ErrorLog (lit ''Header samples per lead: '' @ int_toString (sampleSizeEcg h)),
      ErrorLog (lit ''Number of leads: '' @ int_toString (nLeads h))]"

text \<open>
  \<^verbatim>\<open>parseEcgData\<close>: the result or the exception, with the console output; \<open>None\<close> when
  the call does not return.
\<close>

definition parseEcgData :: "IshneParser \<Rightarrow> ((js_error + ecg) \<times> console list) option" where
  "parseEcgData p =
     (case header p of
        None \<Rightarrow> Some (Inl (Error (lit ''Header must be parsed first'')), [])
      | Some h \<Rightarrow>
          (case calculateActualSamples p of
             Inl e \<Rightarrow> Some (Inl e, [])
           | Inr samplesPerLead \<Rightarrow>
               (case Array_from (nat (nLeads h)) (new_Array samplesPerLead) of
                  Inl e \<Rightarrow> Some (Inl e, [])
                | Inr ecgData \<Rightarrow>
                    (case sample_loop (buffer p) (offsetEcgBlock h) (nat (nLeads h))
                            samplesPerLead 0 ecgData of
                       None \<Rightarrow> None
                     | Some (Inl e) \<Rightarrow> Some (Inl e, catch_log p h samplesPerLead)
                     | Some (Inr ecgData') \<Rightarrow>
                         Some (Inr ecgData',
                               if js_neq samplesPerLead (Fin (of_int (sampleSizeEcg h)))
                               then [mismatch_warning samplesPerLead (sampleSizeEcg h)]
                               else [])))))"

record EcgSummary =
  numberOfLeads :: int
  declaredSamplesPerLead :: int
  actualSamplesPerLead :: jsnum
  summarySamplingRate :: int
  declaredDurationSeconds :: jsnum
  actualDurationSeconds :: jsnum
  dataBlockOffset :: int
  bytesPerSample :: int
  declaredDataBytes :: int
  actualDataBytes :: int
  summaryResolution :: "int list"

definition getEcgSummary :: "IshneParser \<Rightarrow> js_error + EcgSummary" where
  "getEcgSummary p =
     (case header p of
        None \<Rightarrow> Inl (Error (lit ''Header must be parsed first''))
      | Some h \<Rightarrow>
          (case calculateActualSamples p of
             Inl e \<Rightarrow> Inl e
           | Inr actualSamples \<Rightarrow>
               Inr \<lparr> numberOfLeads = nLeads h,
                     declaredSamplesPerLead = sampleSizeEcg h,
                     actualSamplesPerLead = actualSamples,
                     summarySamplingRate = samplingRate h,
                     declaredDurationSeconds =
                       js_div (Fin (of_int (sampleSizeEcg h))) (Fin (of_int (samplingRate h))),
                     actualDurationSeconds =
                       js_div actualSamples (Fin (of_int (samplingRate h))),
                     dataBlockOffset = offsetEcgBlock h,
                     bytesPerSample = 2,
                     declaredDataBytes = sampleSizeEcg h * nLeads h * 2,
                     actualDataBytes = int (length (buffer p)) - offsetEcgBlock h,
                     summaryResolution = take (nat (nLeads h)) (resolution h) \<rparr>))"

subsection \<open>The exporters\<close>

record ExportOptions =
  separator :: "jsstring option"
  includeHeader :: "bool option"
  samplesPerLine :: "int option"
  timeColumn :: "bool option"
  decimalPlaces :: "int option"

text \<open>The defaults of the destructured options.\<close>

definition separator_of :: "ExportOptions \<Rightarrow> jsstring" where
  "separator_of options = (case separator options of None \<Rightarrow> lit '','' | Some s \<Rightarrow> s)"

definition includeHeader_of :: "ExportOptions \<Rightarrow> bool" where
  "includeHeader_of options = (case includeHeader options of None \<Rightarrow> True | Some b \<Rightarrow> b)"

definition timeColumn_of :: "ExportOptions \<Rightarrow> bool" where
  "timeColumn_of options = (case timeColumn options of None \<Rightarrow> True | Some b \<Rightarrow> b)"

definition decimalPlaces_of :: "ExportOptions \<Rightarrow> int" where
  "decimalPlaces_of options = (case decimalPlaces options of None \<Rightarrow> 2 | Some n \<Rightarrow> n)"

text \<open>
  An asynchronous generator run to its end: the chunks it yielded, in order, and the
  exception that ended it, if any.
\<close>

type_synonym chunks = "jsstring list \<times> js_error option"

definition yield :: "jsstring \<Rightarrow> chunks" where
  "yield c = ([c], None)"

definition then_gen :: "chunks \<Rightarrow> chunks \<Rightarrow> chunks" where
  "then_gen a b = (case a of
       (cs, Some e) \<Rightarrow> (cs, Some e)
     | (cs, None) \<Rightarrow> (case b of (ds, r) \<Rightarrow> (cs @ ds, r)))"

fun gen_concat :: "chunks list \<Rightarrow> chunks" where
  "gen_concat [] = ([], None)"
| "gen_concat (g # gs) = then_gen g (gen_concat gs)"

text \<open>A loop that yields one chunk per index and stops at the first exception.\<close>

fun yield_each :: "(nat \<Rightarrow> js_error + jsstring) \<Rightarrow> nat list \<Rightarrow> chunks" where
  "yield_each f [] = ([], None)"
| "yield_each f (i # is) = (case f i of
       Inl e \<Rightarrow> ([], Some e)
     | Inr c \<Rightarrow> then_gen (yield c) (yield_each f is))"

text \<open>
  \<^verbatim>\<open>(ecgData[lead][i] * this.header.resolution[lead] / 1000000)\<close>, where \<open>raw\<close> is
  \<^verbatim>\<open>ecgData[lead][i]\<close>. The array \<^verbatim>\<open>resolution\<close> has 12 entries; beyond them the
  operand is \<^verbatim>\<open>undefined\<close>.
\<close>

definition scaled :: "IshneHeader \<Rightarrow> nat \<Rightarrow> int option \<Rightarrow> jsnum" where
  "scaled h lead raw =
     js_div (js_mul (to_num raw) (to_num (nth_opt (resolution h) lead))) (Fin 1000000)"

text \<open>\<^verbatim>\<open>ecgData[lead][i]\<close>: a \<^verbatim>\<open>TypeError\<close> when \<^verbatim>\<open>ecgData[lead]\<close> is \<^verbatim>\<open>undefined\<close>.\<close>

definition sample_at :: "ecg \<Rightarrow> nat \<Rightarrow> nat \<Rightarrow> js_error + int option" where
  "sample_at ecgData lead i = (case nth_opt ecgData lead of
       None \<Rightarrow> Inl TypeError
     | Some arr \<Rightarrow> Inr (Option.bind (nth_opt arr i) id))"

text \<open>\<^verbatim>\<open>(i / samplingRate)\<close>\<close>

definition time_of :: "IshneHeader \<Rightarrow> nat \<Rightarrow> jsnum" where
  "time_of h i = js_div (Fin (of_nat i)) (Fin (of_int (samplingRate h)))"

subsubsection \<open>CSV and text\<close>

definition lead_labels :: "nat \<Rightarrow> jsstring list" where
  "lead_labels n = map (\<lambda>i. lit ''Lead'' @ int_toString (int i + 1) @ lit ''(mV)'') [0 ..< n]"

definition csv_headers :: "bool \<Rightarrow> nat \<Rightarrow> jsstring list" where
  "csv_headers tc n = (if tc then [lit ''Time(s)''] else []) @ lead_labels n"

definition csv_value :: "IshneHeader \<Rightarrow> ecg \<Rightarrow> int \<Rightarrow> nat \<Rightarrow> nat \<Rightarrow> js_error + jsstring" where
  "csv_value h ecgData d i lead = (case sample_at ecgData lead i of
       Inl e \<Rightarrow> Inl e
     | Inr raw \<Rightarrow> toFixed (scaled h lead raw) d)"

definition csv_fields ::
  "IshneHeader \<Rightarrow> ecg \<Rightarrow> bool \<Rightarrow> int \<Rightarrow> nat \<Rightarrow> (js_error + jsstring) list" where
  "csv_fields h ecgData tc d i =
     (if tc then [toFixed (time_of h i) d] else []) @
     map (csv_value h ecgData d i) [0 ..< nat (nLeads h)]"

definition csv_row ::
  "IshneHeader \<Rightarrow> ecg \<Rightarrow> jsstring \<Rightarrow> bool \<Rightarrow> int \<Rightarrow> nat \<Rightarrow> js_error + jsstring" where
  "csv_row h ecgData sep tc d i = (case collect (csv_fields h ecgData tc d i) of
       Inl e \<Rightarrow> Inl e
     | Inr row \<Rightarrow> Inr (join sep row @ nl))"

text \<open>The loop over \<^verbatim>\<open>ecgData[0].length\<close> that writes the data rows.\<close>

definition csv_data_rows ::
  "IshneHeader \<Rightarrow> ecg \<Rightarrow> jsstring \<Rightarrow> bool \<Rightarrow> int \<Rightarrow> chunks" where
  "csv_data_rows h ecgData sep tc d = (case nth_opt ecgData 0 of
       None \<Rightarrow> ([], Some TypeError)
     | Some lead0 \<Rightarrow> yield_each (csv_row h ecgData sep tc d) [0 ..< length lead0])"

definition csv_chunks ::
  "IshneHeader \<Rightarrow> ecg \<Rightarrow> jsstring \<Rightarrow> bool \<Rightarrow> bool \<Rightarrow> int \<Rightarrow> chunks" where
  "csv_chunks h ecgData sep ih tc d =
     then_gen
       (if ih then yield (join sep (csv_headers tc (nat (nLeads h))) @ nl) else ([], None))
       (csv_data_rows h ecgData sep tc d)"

text \<open>
  A generator's outcome: its chunks and exception, with the console output of the
  \<^verbatim>\<open>parseEcgData\<close> call it makes before its first \<^verbatim>\<open>yield\<close>; \<open>None\<close> when that call
  does not return.
\<close>

definition generateCsvContent ::
  "IshneParser \<Rightarrow> ExportOptions \<Rightarrow> (chunks \<times> console list) option" where
  "generateCsvContent p options =
     (case header p of
        None \<Rightarrow> Some (([], Some (Error (lit ''Header must be parsed first''))), [])
      | Some h \<Rightarrow>
          (case parseEcgData p of
             None \<Rightarrow> None
           | Some (Inl e, logs) \<Rightarrow> Some (([], Some e), logs)
           | Some (Inr ecgData, logs) \<Rightarrow>
               Some (csv_chunks h ecgData (separator_of options) (includeHeader_of options)
                       (timeColumn_of options) (decimalPlaces_of options), logs)))"

subsubsection \<open>JSON\<close>

record PatientInfo =
  patientId :: jsstring
  patientFirstName :: jsstring
  patientLastName :: jsstring
  patientSex :: int
  patientRace :: int
  patientBirthDate :: "int list"

record RecordInfo =
  recordInfoDate :: "int list"
  recordStartTime :: "int list"
  recordSamplingRate :: int
  recordNumberOfLeads :: int
  leadResolutions :: "int list"
  duration :: jsnum

record Technical =
  technicalFileVersion :: int
  technicalPacemaker :: int
  technicalRecorder :: jsstring

record Metadata =
  patientInfo :: PatientInfo
  recordInfo :: RecordInfo
  technical :: Technical

definition metadata_of :: "IshneHeader \<Rightarrow> nat \<Rightarrow> Metadata" where
  "metadata_of h len0 =
     \<lparr> patientInfo =
         \<lparr> patientId = subjectId h,
           patientFirstName = firstName h,
           patientLastName = lastName h,
           patientSex = sex h,
           patientRace = race h,
           patientBirthDate = birthDate h \<rparr>,
       recordInfo =
         \<lparr> recordInfoDate = recordDate h,
           recordStartTime = startTime h,
           recordSamplingRate = samplingRate h,
           recordNumberOfLeads = nLeads h,
           leadResolutions = take (nat (nLeads h)) (resolution h),
           duration = js_div (Fin (of_nat len0)) (Fin (of_int (samplingRate h))) \<rparr>,
       technical =
         \<lparr> technicalFileVersion = fileVersion h,
           technicalPacemaker = pacemaker h,
           technicalRecorder = recorder h \<rparr> \<rparr>"

text \<open>\<^verbatim>\<open>Number(x.toFixed(decimalPlaces))\<close>\<close>

definition rounded :: "jsnum \<Rightarrow> int \<Rightarrow> js_error + jsnum" where
  "rounded x d = (case toFixed x d of Inl e \<Rightarrow> Inl e | Inr s \<Rightarrow> Inr (js_Number s))"

definition json_time :: "IshneHeader \<Rightarrow> int \<Rightarrow> nat \<Rightarrow> nat \<Rightarrow> js_error + jsstring" where
  "json_time h d len0 i = (case rounded (time_of h i) d of
       Inl e \<Rightarrow> Inl e
     | Inr v \<Rightarrow> Inr (lit ''      '' @ Number_toString v @
                     (if int i < int len0 - 1 then lit '','' else []) @ nl))"

definition json_value ::
  "IshneHeader \<Rightarrow> int \<Rightarrow> nat \<Rightarrow> int option list \<Rightarrow> nat \<Rightarrow> js_error + jsstring" where
  "json_value h d lead arr i =
     (case rounded (scaled h lead (Option.bind (nth_opt arr i) id)) d of
        Inl e \<Rightarrow> Inl e
      | Inr v \<Rightarrow> Inr (lit ''        '' @ Number_toString v @
                      (if int i < int (length arr) - 1 then lit '','' else []) @ nl))"

definition json_lead :: "IshneHeader \<Rightarrow> ecg \<Rightarrow> int \<Rightarrow> nat \<Rightarrow> chunks" where
  "json_lead h ecgData d lead =
     then_gen (yield (lit ''      ['' @ nl))
       (case nth_opt ecgData lead of
          None \<Rightarrow> ([], Some TypeError)
        | Some arr \<Rightarrow>
            then_gen (yield_each (json_value h d lead arr) [0 ..< length arr])
              (yield (lit ''      ]'' @
                      (if int lead < nLeads h - 1 then lit '','' else []) @ nl)))"

text \<open>
  The body of \<^verbatim>\<open>generateJsonContent\<close> after \<^verbatim>\<open>parseEcgData\<close> returned. The serialiser
  \<^verbatim>\<open>JSON.stringify(metadata, null, 2)\<close> of the host is a parameter.
\<close>

definition json_chunks ::
  "(Metadata \<Rightarrow> jsstring) \<Rightarrow> IshneHeader \<Rightarrow> ecg \<Rightarrow> bool \<Rightarrow> int \<Rightarrow> chunks" where
  "json_chunks stringify h ecgData tc d =
     then_gen (yield (lit ''{'' @ nl @ lit ''  \"metadata\": ''))
       (case nth_opt ecgData 0 of
          None \<Rightarrow> ([], Some TypeError)
        | Some lead0 \<Rightarrow>
            gen_concat
              [yield (stringify (metadata_of h (length lead0))),
               yield (lit '','' @ nl @ lit ''  \"data\": {'' @ nl),
               if tc
               then gen_concat
                      [yield (lit ''    \"time\": ['' @ nl),
                       yield_each (json_time h d (length lead0)) [0 ..< length lead0],
                       yield (lit ''    ],'' @ nl)]
               else ([], None),
               yield (lit ''    \"leads\": ['' @ nl),
               gen_concat (map (json_lead h ecgData d) [0 ..< nat (nLeads h)]),
               yield (lit ''    ]'' @ nl @ lit ''  }'' @ nl @ lit ''}'')])"

definition generateJsonContent ::
  "(Metadata \<Rightarrow> jsstring) \<Rightarrow> IshneParser \<Rightarrow> ExportOptions \<Rightarrow> (chunks \<times> console list) option"
  where
  "generateJsonContent stringify p options =
     (case header p of
        None \<Rightarrow> Some (([], Some (Error (lit ''Header must be parsed first''))), [])
      | Some h \<Rightarrow>
          (case parseEcgData p of
             None \<Rightarrow> None
           | Some (Inl e, logs) \<Rightarrow> Some (([], Some e), logs)
           | Some (Inr ecgData, logs) \<Rightarrow>
               Some (json_chunks stringify h ecgData (timeColumn_of options)
                       (decimalPlaces_of options), logs)))"

subsubsection \<open>Writing to the sink\<close>

text \<open>
  \<^verbatim>\<open>writeStreamToFile\<close> opens the file truncated, writes each chunk as the generator
  yields it, and closes the file whether or not the generator throws. The file system is
  a map from path to the chunks written; the file is taken to accept every write.
\<close>

type_synonym files = "jsstring \<rightharpoonup> jsstring list"

definition writeStreamToFile ::
  "files \<Rightarrow> jsstring \<Rightarrow> (chunks \<times> console list) option \<Rightarrow>
   (files \<times> js_error option \<times> console list) option" where
  "writeStreamToFile fs filePath content = (case content of
       None \<Rightarrow> None
     | Some ((cs, r), logs) \<Rightarrow> Some (fs(filePath \<mapsto> cs), r, logs))"

definition exportToJson ::
  "(Metadata \<Rightarrow> jsstring) \<Rightarrow> IshneParser \<Rightarrow> files \<Rightarrow> jsstring \<Rightarrow> ExportOptions \<Rightarrow>
   (files \<times> js_error option \<times> console list) option" where
  "exportToJson stringify p fs filePath options =
     writeStreamToFile fs filePath (generateJsonContent stringify p options)"

definition exportToCsv ::
  "IshneParser \<Rightarrow> files \<Rightarrow> jsstring \<Rightarrow> ExportOptions \<Rightarrow>
   (files \<times> js_error option \<times> console list) option" where
  "exportToCsv p fs filePath options =
     writeStreamToFile fs filePath (generateCsvContent p options)"

definition exportToText ::
  "IshneParser \<Rightarrow> files \<Rightarrow> jsstring \<Rightarrow> ExportOptions \<Rightarrow>
   (files \<times> js_error option \<times> console list) option" where
  "exportToText p fs filePath options =
     exportToCsv p fs filePath (options\<lparr>separator := Some tab\<rparr>)"

subsection \<open>Vocabulary of the properties and a concrete recording\<close>

text \<open>The eight bytes of the ASCII text \<^verbatim>\<open>ISHNE1.0\<close>.\<close>

definition magic_bytes :: "byte list" where
  "magic_bytes = [73, 83, 72, 78, 69, 49, 46, 48]"

text \<open>
  \<open>field\<close> is \<open>whole\<close> without its trailing NUL code units: what was cut is only NULs,
  and no NUL is left at the end.
\<close>

definition nul_stripped :: "jsstring \<Rightarrow> jsstring \<Rightarrow> bool" where
  "nul_stripped whole field =
     (whole = field @ replicate (length whole - length field) 0 \<and>
      (field = [] \<or> last field \<noteq> 0))"

text \<open>
  The sample that \<^verbatim>\<open>parseEcgData\<close> reads for a sample index and a lead, the whole
  demultiplexed result for a given number of samples per lead, and the state of
  \<^verbatim>\<open>ecgData\<close> when the loops have reached sample \<open>s\<close> and lead \<open>l\<close> (the invariant
  of the two loops).
\<close>

definition sample_of :: "byte list \<Rightarrow> int \<Rightarrow> nat \<Rightarrow> nat \<Rightarrow> nat \<Rightarrow> int" where
  "sample_of buf off n sample lead = int16_at buf (nat (read_offset off n sample lead))"

definition demux :: "byte list \<Rightarrow> int \<Rightarrow> nat \<Rightarrow> nat \<Rightarrow> ecg" where
  "demux buf off n count =
     map (\<lambda>lead. map (\<lambda>s. Some (sample_of buf off n s lead)) [0 ..< count]) [0 ..< n]"

definition filled :: "byte list \<Rightarrow> int \<Rightarrow> nat \<Rightarrow> nat \<Rightarrow> nat \<Rightarrow> nat \<Rightarrow> ecg" where
  "filled buf off n count s l =
     map (\<lambda>lead. map (\<lambda>s'. if s' < s \<or> (s' = s \<and> lead < l)
                               then Some (sample_of buf off n s' lead) else None)
                     [0 ..< count]) [0 ..< n]"

text \<open>The quotient \<open>\<lfloor>(B - O) / (2 L)\<rfloor>\<close> on integers.\<close>

definition actual_count :: "IshneParser \<Rightarrow> IshneHeader \<Rightarrow> int" where
  "actual_count p h = (int (length (buffer p)) - offsetEcgBlock h) div (2 * nLeads h)"

text \<open>
  The text the exporters write for a recording whose samples were decoded: one cell of a
  CSV row, a whole CSV row, and the chunks of the JSON \<^verbatim>\<open>leads\<close> and \<^verbatim>\<open>time\<close> arrays.
\<close>

definition csv_cell :: "IshneHeader \<Rightarrow> byte list \<Rightarrow> nat \<Rightarrow> nat \<Rightarrow> nat \<Rightarrow> jsstring" where
  "csv_cell h buf f i lead =
     fixed_notation
       (scaled h lead (Some (sample_of buf (offsetEcgBlock h) (nat (nLeads h)) i lead))) f"

definition csv_line :: "IshneHeader \<Rightarrow> byte list \<Rightarrow> jsstring \<Rightarrow> bool \<Rightarrow> nat \<Rightarrow> nat \<Rightarrow> jsstring" where
  "csv_line h buf sep tc f i =
     join sep ((if tc then [fixed_notation (time_of h i) f] else []) @
               map (csv_cell h buf f i) [0 ..< nat (nLeads h)]) @ nl"

definition json_cell :: "IshneHeader \<Rightarrow> byte list \<Rightarrow> nat \<Rightarrow> nat \<Rightarrow> nat \<Rightarrow> nat \<Rightarrow> jsstring" where
  "json_cell h buf f count lead i =
     lit ''        '' @ Number_toString (js_Number (csv_cell h buf f i lead)) @
     (if int i < int count - 1 then lit '','' else []) @ nl"

definition json_lead_block :: "IshneHeader \<Rightarrow> byte list \<Rightarrow> nat \<Rightarrow> nat \<Rightarrow> nat \<Rightarrow> jsstring list" where
  "json_lead_block h buf f count lead =
     [lit ''      ['' @ nl] @ map (json_cell h buf f count lead) [0 ..< count] @
     [lit ''      ]'' @ (if int lead < nLeads h - 1 then lit '','' else []) @ nl]"

definition json_time_block :: "IshneHeader \<Rightarrow> nat \<Rightarrow> nat \<Rightarrow> jsstring list" where
  "json_time_block h f count =
     [lit ''    \"time\": ['' @ nl] @
     map (\<lambda>i. lit ''      '' @ Number_toString (js_Number (fixed_notation (time_of h i) f)) @
               (if int i < int count - 1 then lit '','' else []) @ nl) [0 ..< count] @
     [lit ''    ],'' @ nl]"

text \<open>
  Rounding a rational to \<open>f\<close> decimal places, ties away from zero, and the rational
  that a decimal numeral with an optional minus sign denotes.
\<close>

definition round_places :: "rat \<Rightarrow> nat \<Rightarrow> rat" where
  "round_places q f = sgn q * of_int \<lfloor>\<bar>q\<bar> * 10 ^ f + 1 / 2\<rfloor> / 10 ^ f"

definition decimal_of :: "jsstring \<Rightarrow> rat option" where
  "decimal_of s = (case s of
       [] \<Rightarrow> None
     | c # r \<Rightarrow> if c = 45 then map_option uminus (parse_unsigned r) else parse_unsigned s)"

text \<open>
  A file of 608 bytes: two leads, 250 Hz, ECG block at offset 600, resolution 200 for
  both leads, three samples per lead declared but eight bytes of samples present
  (75 and -75, then 1250 and -32768). The first name is \<^verbatim>\<open>Ann\<close> between two spaces.
\<close>

definition scenario_buffer :: "byte list" where
  "scenario_buffer =
     magic_bytes @ [0, 0] @
     [0, 0, 0, 0] @ [3, 0, 0, 0] @ [0, 0, 0, 0] @ [88, 2, 0, 0] @ [1, 0] @
     ([32, 65, 110, 110, 32] @ replicate 35 0) @ replicate 40 0 @ replicate 20 0 @
     replicate 28 0 @
     [2, 0] @ replicate 24 0 @ replicate 24 0 @ ([200, 0, 200, 0] @ replicate 20 0) @
     [0, 0] @ replicate 40 0 @ [250, 0] @ replicate 80 0 @ replicate 80 0 @
     replicate 166 0 @
     [75, 0, 181, 255, 226, 4, 0, 128]"

definition scenario_header :: IshneHeader where
  "scenario_header =
     \<lparr> varLengthBlockSize = 0, sampleSizeEcg = 3, offsetVarLengthBlock = 0,
       offsetEcgBlock = 600, fileVersion = 1,
       firstName = lit '' Ann '', lastName = [], subjectId = [],
       sex = 0, race = 0,
       birthDate = [0, 0, 0], recordDate = [0, 0, 0], fileDate = [0, 0, 0],
       startTime = [0, 0, 0],
       nLeads = 2,
       leadSpec = replicate 12 0, leadQuality = replicate 12 0,
       resolution = [200, 200] @ replicate 10 0,
       pacemaker = 0, recorder = [], samplingRate = 250,
       proprietary = [], copyright = [] \<rparr>"

definition scenario_parser :: IshneParser where
  "scenario_parser = \<lparr> buffer = scenario_buffer, header = Some scenario_header \<rparr>"


definition no_options :: ExportOptions where
  "no_options = \<lparr> separator = None, includeHeader = None, samplesPerLine = None,
                  timeColumn = None, decimalPlaces = None \<rparr>"

section \<open>Properties\<close>

subsection \<open>Strings and the header\<close>

lemma strip_trailing_nul_decomp:
  "\<exists>k. s = strip_trailing_nul s @ replicate k 0"
proof -
  let ?P = "\<lambda>c::16 word. c = 0"
  obtain k where tw: "takeWhile ?P (rev s) = replicate k 0"
    using replicate_length_same[of "takeWhile ?P (rev s)" 0]
    by (metis (mono_tags, lifting) set_takeWhileD)
  have "rev s = takeWhile ?P (rev s) @ dropWhile ?P (rev s)" by simp
  then have "rev s = replicate k 0 @ dropWhile ?P (rev s)"
    by (simp only: tw)
  then have "rev (rev s) = rev (replicate k 0 @ dropWhile ?P (rev s))"
    by (rule arg_cong)
  then have "s = strip_trailing_nul s @ replicate k 0"
    by (simp add: strip_trailing_nul_def)
  then show ?thesis ..
qed

lemma strip_trailing_nul_last:
  "strip_trailing_nul s = [] \<or> last (strip_trailing_nul s) \<noteq> 0"
proof (cases "dropWhile (\<lambda>c. c = 0) (rev s)")
  case Nil
  then show ?thesis by (simp add: strip_trailing_nul_def)
next
  case (Cons x xs)
  then have "x \<noteq> 0" using hd_dropWhile[of "\<lambda>c. c = 0" "rev s"] by auto
  with Cons show ?thesis by (simp add: strip_trailing_nul_def)
qed

lemma windows_1252_high: "i < 32 \<Longrightarrow> 0x80 \<le> windows_1252 ! i"
proof -
  have "list_all (\<lambda>w. 0x80 \<le> w) windows_1252"
    by (simp add: windows_1252_def)
  moreover have "length windows_1252 = 32" by (simp add: windows_1252_def)
  ultimately show "i < 32 \<Longrightarrow> 0x80 \<le> windows_1252 ! i"
    by (simp add: list_all_length)
qed

lemma decode_byte_ascii:
  assumes "decode_byte b = c" and "c < 0x80"
  shows "b = ucast c"
proof (cases "0x80 \<le> b \<and> b < 0xA0")
  case True
  then have "unat b - 128 < 32"
    by (auto simp: word_less_nat_alt word_le_nat_alt)
  then have "0x80 \<le> windows_1252 ! (unat b - 128)" by (rule windows_1252_high)
  with True assms show ?thesis by (simp add: decode_byte_def)
next
  case False
  with assms have "c = ucast b" by (simp add: decode_byte_def)
  then show ?thesis by (simp add: ucast_down_ucast_id is_down)
qed

lemma getInt16_array_Some:
  "(\<exists>v. getInt16_array buf base = Some v) \<longleftrightarrow> base + 24 \<le> length buf"
  by (auto simp: getInt16_array_def getInt16_def upt_rec split: if_splits option.splits)

lemma scenario_length: "length scenario_buffer = 608"
  by (simp add: scenario_buffer_def magic_bytes_def)

lemma scenario_parseHeader:
  "parseHeader \<lparr> buffer = scenario_buffer, header = None \<rparr> = (Inr scenario_header, scenario_parser)"
  by code_simp

lemma read_header_binds:
  assumes "read_header buf = Some h"
  shows "\<exists>v_nLeads v_off v_decl v_res v_rate.
      getUint16 buf 156 = Some v_nLeads \<and> nLeads h = v_nLeads \<and>
      getUint32 buf 22 = Some v_off \<and> offsetEcgBlock h = v_off \<and>
      getUint32 buf 14 = Some v_decl \<and> sampleSizeEcg h = v_decl \<and>
      getInt16_array buf 206 = Some v_res \<and> resolution h = v_res \<and>
      getUint16 buf 272 = Some v_rate \<and> samplingRate h = v_rate \<and>
      firstName h = readString buf 28 40 \<and>
      lastName h = readString buf 68 40 \<and>
      subjectId h = readString buf 108 20 \<and>
      recorder h = readString buf 232 40 \<and>
      proprietary h = readString buf 274 80 \<and>
      copyright h = readString buf 354 80"
  using assms
  unfolding read_header_def Let_def bind_eq_Some_conv HEADER_START_def
  by (elim exE conjE) force


lemma those_map_Some:
  "those (map f xs) = Some v \<Longrightarrow> length v = length xs \<and> (\<forall>i<length xs. f (xs ! i) = Some (v ! i))"
proof (induction xs arbitrary: v)
  case Nil
  then show ?case by simp
next
  case (Cons x xs)
  from Cons.prems obtain y ys where y: "f x = Some y" and ys: "those (map f xs) = Some ys"
    and v: "v = y # ys"
    by (auto split: option.splits)
  from Cons.IH[OF ys] y v show ?case
    by (auto simp: nth_Cons split: nat.splits)
qed

lemma getInt16_array_values:
  assumes "getInt16_array buf base = Some v"
  shows "length v = 12" and "i < 12 \<Longrightarrow> v ! i = int16_at buf (base + i * 2)"
proof -
  from those_map_Some[OF assms[unfolded getInt16_array_def]]
  have l: "length v = 12" and a: "\<forall>i<12. getInt16 buf (base + [0..<12] ! i * 2) = Some (v ! i)"
    by simp_all
  show "length v = 12" by (rule l)
  assume i: "i < 12"
  with a have "getInt16 buf (base + i * 2) = Some (v ! i)"
    by (metis add_0 nth_upt)
  then show "v ! i = int16_at buf (base + i * 2)"
    by (simp add: getInt16_def split: if_splits)
qed

lemma uint_byte_range: "0 \<le> uint (b :: byte) \<and> uint b < 256"
  using uint_lt2p[of b] by simp

lemma getUint16_range: "getUint16 buf off = Some v \<Longrightarrow> 0 \<le> v \<and> v < 65536"
  using uint_byte_range[of "buf ! off"] uint_byte_range[of "buf ! (off + 1)"]
  by (auto simp: getUint16_def split: if_splits)

lemma getUint32_range: "getUint32 buf off = Some v \<Longrightarrow> 0 \<le> v \<and> v < 4294967296"
  using uint_byte_range[of "buf ! off"] uint_byte_range[of "buf ! (off + 1)"]
    uint_byte_range[of "buf ! (off + 2)"] uint_byte_range[of "buf ! (off + 3)"]
  by (auto simp: getUint32_def split: if_splits)

lemma read_header_ranges:
  assumes "read_header buf = Some h"
  shows "0 \<le> nLeads h" and "nLeads h < 65536"
    and "0 \<le> offsetEcgBlock h" and "offsetEcgBlock h < 4294967296"
    and "0 \<le> sampleSizeEcg h" and "length (resolution h) = 12"
    and "274 \<le> length buf"
proof -
  from read_header_binds[OF assms] obtain v_res v_rate where
    n: "getUint16 buf 156 = Some (nLeads h)" and
    off: "getUint32 buf 22 = Some (offsetEcgBlock h)" and
    decl: "getUint32 buf 14 = Some (sampleSizeEcg h)" and
    res: "getInt16_array buf 206 = Some (resolution h)" and
    rate: "getUint16 buf 272 = Some v_rate"
    by blast
  from getUint16_range[OF n] show "0 \<le> nLeads h" and "nLeads h < 65536" by simp_all
  from getUint32_range[OF off] show "0 \<le> offsetEcgBlock h" and "offsetEcgBlock h < 4294967296"
    by simp_all
  from getUint32_range[OF decl] show "0 \<le> sampleSizeEcg h" by simp
  from getInt16_array_values(1)[OF res] show "length (resolution h) = 12" .
  from rate show "274 \<le> length buf" by (simp add: getUint16_def split: if_splits)
qed

lemma read_header_succeeds:
  assumes "274 \<le> length buf"
  shows "\<exists>h. read_header buf = Some h"
proof -
  have a: "\<And>off. off + 24 \<le> 274 \<Longrightarrow> \<exists>v. getInt16_array buf off = Some v"
    using assms by (simp add: getInt16_array_Some)
  obtain ls where ls: "getInt16_array buf 158 = Some ls"
    using a[of 158] by auto
  obtain lq where lq: "getInt16_array buf 182 = Some lq"
    using a[of 182] by auto
  obtain rs where rs: "getInt16_array buf 206 = Some rs"
    using a[of 206] by auto
  show ?thesis
    using assms
    by (simp add: read_header_def Let_def ls lq rs getUint16_def getUint32_def HEADER_START_def)
qed

lemma decode_magic: "decode magic_bytes = lit ''ISHNE1.0''"
  by (simp add: decode_def magic_bytes_def lit_def decode_byte_def)

lemma strip_magic: "strip_trailing_nul (lit ''ISHNE1.0'') = lit ''ISHNE1.0''"
  by (simp add: strip_trailing_nul_def lit_def)

lemma lit_magic: "lit ''ISHNE1.0'' = [73, 83, 72, 78, 69, 49, 46, 48]"
  by (simp add: lit_def)

lemma decode_ascii_inverse:
  "map decode_byte bs = cs \<Longrightarrow> list_all (\<lambda>c. c < 0x80) cs \<Longrightarrow> bs = map ucast cs"
  by (induction bs arbitrary: cs) (auto intro: decode_byte_ascii[OF refl])

lemma magic_check:
  "readString buf 0 8 = lit ''ISHNE1.0'' \<longleftrightarrow> take 8 buf = magic_bytes"
proof
  assume "take 8 buf = magic_bytes"
  then show "readString buf 0 8 = lit ''ISHNE1.0''"
    by (simp add: readString_def slice_def decode_magic strip_magic)
next
  assume r: "readString buf 0 8 = lit ''ISHNE1.0''"
  let ?bs = "take 8 buf"
  obtain k where k: "decode ?bs = readString buf 0 8 @ replicate k 0"
    using strip_trailing_nul_decomp[of "decode ?bs"]
    by (auto simp: readString_def slice_def)
  have "length (decode ?bs) \<le> 8" by (simp add: decode_def)
  with k r have "k = 0" by (simp add: lit_magic)
  with k r have d: "map decode_byte ?bs = [73, 83, 72, 78, 69, 49, 46, 48]"
    by (simp add: decode_def lit_magic)
  have "?bs = map ucast [73, 83, 72, 78, 69, 49, 46, 48 :: 16 word]"
    by (rule decode_ascii_inverse[OF d]) simp
  then show "?bs = magic_bytes"
    by (simp add: magic_bytes_def)
qed

lemma parseHeader_cases:
  "fst (parseHeader p) =
     (if take 8 (buffer p) \<noteq> magic_bytes then Inl (Error (lit ''Invalid ISHNE file format''))
      else case read_header (buffer p) of None \<Rightarrow> Inl RangeError | Some h \<Rightarrow> Inr h)"
  by (simp add: parseHeader_def Let_def magic_check split: option.splits)

lemma parseHeader_Inr:
  "fst (parseHeader p) = Inr h \<Longrightarrow> read_header (buffer p) = Some h"
  by (simp add: parseHeader_cases split: if_splits option.splits)

text \<open>
  Claim C3, as amended. \<^verbatim>\<open>parseHeader\<close> throws the format error \<^verbatim>\<open>Invalid ISHNE file format\<close>
  exactly when the first eight bytes are not \<^verbatim>\<open>ISHNE1.0\<close>, which covers every buffer
  shorter than eight bytes. When the magic matches, it throws a \<^verbatim>\<open>RangeError\<close> exactly
  when the buffer is shorter than 274 bytes, the end of the last field read through the
  \<^verbatim>\<open>DataView\<close>, and it returns a header exactly when the buffer has at least 274 bytes.
\<close>

theorem parseHeader_outcome:
  "(fst (parseHeader p) = Inl (Error (lit ''Invalid ISHNE file format''))
      \<longleftrightarrow> take 8 (buffer p) \<noteq> magic_bytes) \<and>
   (fst (parseHeader p) = Inl RangeError
      \<longleftrightarrow> take 8 (buffer p) = magic_bytes \<and> length (buffer p) < 274) \<and>
   ((\<exists>h. fst (parseHeader p) = Inr h)
      \<longleftrightarrow> take 8 (buffer p) = magic_bytes \<and> 274 \<le> length (buffer p))"
proof (cases "take 8 (buffer p) = magic_bytes")
  case False
  then show ?thesis by (simp add: parseHeader_cases)
next
  case True
  show ?thesis
  proof (cases "read_header (buffer p)")
    case None
    then have "length (buffer p) < 274"
      using read_header_succeeds[of "buffer p"] by force
    with None True show ?thesis by (simp add: parseHeader_cases)
  next
    case (Some h)
    then have "274 \<le> length (buffer p)" by (rule read_header_ranges)
    with Some True show ?thesis by (simp add: parseHeader_cases)
  qed
qed

theorem parseHeader_outcome_witness:
  "fst (parseHeader \<lparr> buffer = [], header = None \<rparr>) = Inl (Error (lit ''Invalid ISHNE file format'')) \<and>
   fst (parseHeader \<lparr> buffer = magic_bytes @ replicate 265 0, header = None \<rparr>) = Inl RangeError \<and>
   (\<exists>h. fst (parseHeader \<lparr> buffer = magic_bytes @ replicate 266 0, header = None \<rparr>) = Inr h)"
  using parseHeader_outcome[of "\<lparr> buffer = [], header = None \<rparr>"]
    parseHeader_outcome[of "\<lparr> buffer = magic_bytes @ replicate 265 0, header = None \<rparr>"]
    parseHeader_outcome[of "\<lparr> buffer = magic_bytes @ replicate 266 0, header = None \<rparr>"]
  by (simp add: magic_bytes_def)

text \<open>
  Claim C3 as stated fails: a buffer that holds the magic and nothing else is shorter than
  the fixed header region, and \<^verbatim>\<open>parseHeader\<close> throws a \<^verbatim>\<open>RangeError\<close> on it, not the
  format error.
\<close>

theorem parseHeader_short_buffer_counterexample:
  "length magic_bytes = 8 \<and>
   fst (parseHeader \<lparr> buffer = magic_bytes, header = None \<rparr>) = Inl RangeError"
  by code_simp

text \<open>
  Claim C8. When \<^verbatim>\<open>parseHeader\<close> returns a header, each of its six text fields is the
  decoded field of the buffer with its trailing NULs removed and nothing else: the
  decoded bytes are the field followed by NULs only, and the field does not end in NUL.
\<close>

theorem text_fields_strip_only_trailing_nul:
  assumes "fst (parseHeader p) = Inr h"
  shows "nul_stripped (decode (slice (buffer p) 28 68)) (firstName h) \<and>
         nul_stripped (decode (slice (buffer p) 68 108)) (lastName h) \<and>
         nul_stripped (decode (slice (buffer p) 108 128)) (subjectId h) \<and>
         nul_stripped (decode (slice (buffer p) 232 272)) (recorder h) \<and>
         nul_stripped (decode (slice (buffer p) 274 354)) (proprietary h) \<and>
         nul_stripped (decode (slice (buffer p) 354 434)) (copyright h)"
proof -
  have r: "nul_stripped (decode (slice buf off (off + len))) (readString buf off len)"
    for buf off len
  proof -
    let ?w = "decode (slice buf off (off + len))"
    obtain k where k: "?w = strip_trailing_nul ?w @ replicate k 0"
      using strip_trailing_nul_decomp by blast
    then have "length ?w = length (strip_trailing_nul ?w) + k"
      by (metis length_append length_replicate)
    then have "k = length ?w - length (strip_trailing_nul ?w)" by simp
    with k strip_trailing_nul_last[of ?w] show ?thesis
      by (simp add: nul_stripped_def readString_def)
  qed
  from assms have h: "read_header (buffer p) = Some h" by (rule parseHeader_Inr)
  from read_header_binds[OF h] r[of "buffer p" 28 40] r[of "buffer p" 68 40]
    r[of "buffer p" 108 20] r[of "buffer p" 232 40] r[of "buffer p" 274 80]
    r[of "buffer p" 354 80]
  show ?thesis by auto
qed

theorem text_fields_strip_only_trailing_nul_witness:
  "fst (parseHeader \<lparr> buffer = scenario_buffer, header = None \<rparr>) = Inr scenario_header \<and>
   decode (slice scenario_buffer 28 68) = lit '' Ann '' @ replicate 35 0 \<and>
   nul_stripped (decode (slice scenario_buffer 28 68)) (lit '' Ann '')"
proof -
  have h: "fst (parseHeader \<lparr> buffer = scenario_buffer, header = None \<rparr>) = Inr scenario_header"
    by (simp add: scenario_parseHeader)
  have d: "decode (slice scenario_buffer 28 68) = lit '' Ann '' @ replicate 35 0"
    by code_simp
  from text_fields_strip_only_trailing_nul[OF h]
  have "nul_stripped (decode (slice scenario_buffer 28 68)) (firstName scenario_header)"
    by simp
  then show ?thesis using h d by (simp add: scenario_header_def)
qed

text \<open>
  Claim C9. \<^verbatim>\<open>exportToText\<close> is \<^verbatim>\<open>exportToCsv\<close> on the same options with the separator
  replaced by a tab: the same file contents, chunk by chunk, the same exception and the
  same console output, whatever separator the caller supplied.
\<close>

theorem exportToText_is_csv_with_tab:
  "exportToText p fs filePath options =
     exportToCsv p fs filePath (options\<lparr>separator := Some [9]\<rparr>) \<and>
   separator_of (options\<lparr>separator := Some [9]\<rparr>) = [9] \<and>
   exportToText p fs filePath (options\<lparr>separator := s\<rparr>) = exportToText p fs filePath options"
  by (simp add: exportToText_def tab_def separator_of_def)

subsection \<open>Rounding to binary64\<close>

lemma pow2_powi: "pow2 e = 2 powi e"
  by (simp add: pow2_def power_int_def inverse_eq_divide power_one_over)

lemma pow2_pos: "0 < pow2 e"
  by (simp add: pow2_powi)

lemma pow2_add: "pow2 (a + b) = pow2 a * pow2 b"
  by (simp add: pow2_powi power_int_add)

lemma pow2_mono: "a \<le> b \<Longrightarrow> pow2 a \<le> pow2 b"
  by (simp add: pow2_powi power_int_increasing)

lemma pow2_nat: "pow2 (int n) = 2 ^ n"
  by (simp add: pow2_def)

lemma binade_bounds:
  assumes "q \<noteq> 0"
  shows "pow2 (binade q) \<le> \<bar>q\<bar>" and "\<bar>q\<bar> < pow2 (binade q + 1)"
proof -
  let ?a = "\<bar>q\<bar>"
  have "pow2 (binade q) \<le> ?a \<and> ?a < pow2 (binade q + 1)"
  proof (cases "1 \<le> ?a")
    case True
    let ?f = "\<lfloor>?a\<rfloor>"
    have f: "0 < ?f" using True by simp
    let ?b = "bitlen ?f"
    from bitlen_bounds[OF f] have lo: "2 ^ nat (?b - 1) \<le> ?f" and hi: "?f < 2 ^ nat ?b"
      by simp_all
    have b1: "1 \<le> ?b" using f by (simp add: bitlen_alt_def)
    have "(of_int (2 ^ nat (?b - 1)) :: rat) \<le> of_int ?f"
      using lo by (simp only: of_int_le_iff)
    then have "(2 ^ nat (?b - 1) :: rat) \<le> of_int ?f"
      by (simp only: of_int_power of_int_numeral)
    also have "\<dots> \<le> ?a" by (rule of_int_floor_le)
    finally have 1: "pow2 (?b - 1) \<le> ?a"
      using b1 by (simp add: pow2_def)
    have "?f + 1 \<le> 2 ^ nat ?b" using hi by simp
    then have "(of_int (?f + 1) :: rat) \<le> of_int (2 ^ nat ?b)"
      by (simp only: of_int_le_iff)
    then have "(of_int (?f + 1) :: rat) \<le> 2 ^ nat ?b"
      by (simp only: of_int_power of_int_numeral)
    moreover have "?a < of_int (?f + 1)" by linarith
    ultimately have "?a < 2 ^ nat ?b" by linarith
    then have 2: "?a < pow2 ?b"
      using b1 by (simp add: pow2_def)
    from 1 2 True show ?thesis by (simp add: binade_def)
  next
    case False
    then have a1: "?a < 1" by simp
    have a0: "0 < ?a" using assms by simp
    let ?t = "1 / ?a"
    have t1: "1 < ?t" using a0 a1 by (simp add: field_simps)
    let ?c = "\<lceil>?t\<rceil>"
    have c2: "0 < ?c - 1" using t1 by linarith
    let ?b = "bitlen (?c - 1)"
    from bitlen_bounds[OF c2] have lo: "2 ^ nat (?b - 1) \<le> ?c - 1" and hi: "?c - 1 < 2 ^ nat ?b"
      by simp_all
    have b1: "1 \<le> ?b" using c2 by (simp add: bitlen_alt_def)
    have "?c \<le> 2 ^ nat ?b" using hi by simp
    then have "(of_int ?c :: rat) \<le> of_int (2 ^ nat ?b)" by (simp only: of_int_le_iff)
    then have "(of_int ?c :: rat) \<le> 2 ^ nat ?b" by (simp only: of_int_power of_int_numeral)
    moreover have "?t \<le> of_int ?c" by (rule le_of_int_ceiling)
    ultimately have "?t \<le> 2 ^ nat ?b" by linarith
    then have "1 \<le> 2 ^ nat ?b * ?a" using a0 by (simp add: field_simps)
    then have 1: "pow2 (- ?b) \<le> ?a"
      using b1 by (simp add: pow2_def field_simps)
    have "(of_int (2 ^ nat (?b - 1)) :: rat) \<le> of_int (?c - 1)"
      using lo by (simp only: of_int_le_iff)
    then have "(2 ^ nat (?b - 1) :: rat) \<le> of_int (?c - 1)"
      by (simp only: of_int_power of_int_numeral)
    moreover have "of_int (?c - 1) < ?t" by linarith
    ultimately have "2 ^ nat (?b - 1) < ?t" by linarith
    then have lt: "2 ^ nat (?b - 1) * ?a < 1" using a0 by (simp add: field_simps)
    have 2: "?a < pow2 (- ?b + 1)"
    proof (cases "?b = 1")
      case True
      then show ?thesis using a1 by (simp add: pow2_def)
    next
      case False
      with b1 have "1 < ?b" by simp
      then have p: "pow2 (- ?b + 1) = 1 / 2 ^ nat (?b - 1)"
        by (simp add: pow2_def)
      have "?a < 1 / 2 ^ nat (?b - 1)" using lt by (simp add: field_simps)
      then show ?thesis by (simp only: p)
    qed
    from 1 2 False show ?thesis by (simp add: binade_def)
  qed
  then show "pow2 (binade q) \<le> \<bar>q\<bar>" and "\<bar>q\<bar> < pow2 (binade q + 1)" by simp_all
qed

lemma round_half_even_near: "\<bar>of_int (round_half_even t) - t\<bar> \<le> 1 / 2"
proof -
  define f where "f = \<lfloor>t\<rfloor>"
  define r where "r = t - of_int f"
  have r: "0 \<le> r" "r < 1" unfolding r_def f_def by linarith+
  have t: "t = of_int f + r" by (simp add: r_def)
  have m: "round_half_even t =
      (if r < 1 / 2 then f else if 1 / 2 < r then f + 1 else if even f then f else f + 1)"
    by (simp add: round_half_even_def Let_def f_def r_def)
  from m r have "round_half_even t = f \<and> r \<le> 1 / 2 \<or> round_half_even t = f + 1 \<and> 1 / 2 \<le> r"
    by (auto split: if_splits)
  then show ?thesis
  proof (elim disjE conjE)
    assume "round_half_even t = f" "r \<le> 1 / 2"
    then have "of_int (round_half_even t) - t = - r" by (simp add: r_def)
    with r \<open>r \<le> 1 / 2\<close> show ?thesis by simp
  next
    assume "round_half_even t = f + 1" "1 / 2 \<le> r"
    then have "of_int (round_half_even t) - t = 1 - r" by (simp add: r_def)
    with r \<open>1 / 2 \<le> r\<close> show ?thesis by simp
  qed
qed

lemma round_half_even_nearest:
  "\<bar>of_int (round_half_even t) - t\<bar> \<le> \<bar>of_int k - t\<bar>"
proof (cases "k = round_half_even t")
  case True
  then show ?thesis by simp
next
  case False
  then have "1 \<le> \<bar>k - round_half_even t\<bar>" by simp
  then have "(1::rat) \<le> \<bar>of_int k - of_int (round_half_even t)\<bar>"
    by (metis of_int_1 of_int_abs of_int_diff of_int_le_iff)
  with round_half_even_near[of t] show ?thesis by linarith
qed

text \<open>The rounded value is as near to the argument as any binary64 value.\<close>

lemma grid_nearest:
  assumes a: "0 < a"
    and e: "e = max (binade a - 52) (- 1074)"
    and m: "m = round_half_even (a / pow2 e)"
    and k: "\<bar>k\<bar> < 2 ^ 53" and e': "- 1074 \<le> e'"
  shows "\<bar>of_int m * pow2 e - a\<bar> \<le> \<bar>of_int k * pow2 e' - a\<bar>"
proof -
  have p: "0 < pow2 e" by (rule pow2_pos)
  have scale: "\<bar>of_int m * pow2 e - a\<bar> \<le> \<bar>of_int K * pow2 e - a\<bar>" for K :: int
  proof -
    have "\<bar>of_int m - a / pow2 e\<bar> \<le> \<bar>of_int K - a / pow2 e\<bar>"
      unfolding m by (rule round_half_even_nearest)
    then have "\<bar>of_int m - a / pow2 e\<bar> * pow2 e \<le> \<bar>of_int K - a / pow2 e\<bar> * pow2 e"
      using p by (simp add: mult_right_mono)
    moreover have "\<bar>x - a / pow2 e\<bar> * pow2 e = \<bar>x * pow2 e - a\<bar>" for x :: rat
    proof -
      have "\<bar>x - a / pow2 e\<bar> * pow2 e = \<bar>(x - a / pow2 e) * pow2 e\<bar>"
        using p by (simp add: abs_mult)
      also have "(x - a / pow2 e) * pow2 e = x * pow2 e - a"
        using p by (simp add: field_simps)
      finally show ?thesis .
    qed
    ultimately show ?thesis by simp
  qed
  show ?thesis
  proof (cases "e \<le> e'")
    case True
    then obtain d where d: "e' = e + int d"
      by (metis zle_iff_zadd)
    have eq: "of_int k * pow2 e' = of_int (k * 2 ^ d) * pow2 e"
      by (simp add: d pow2_add pow2_nat mult_ac)
    show ?thesis using scale[of "k * 2 ^ d"] by (simp only: eq)
  next
    case False
    with e e' have eb: "e = binade a - 52" by simp
    have "pow2 (binade a) \<le> a" using binade_bounds(1)[of a] a by simp
    then have G: "pow2 (52 + e) \<le> a" by (simp add: eb)
    have Gk: "pow2 (52 + e) = of_int (2 ^ 52) * pow2 e"
      using pow2_add[of 52 e] pow2_nat[of 52] by simp
    have "\<bar>of_int m * pow2 e - a\<bar> \<le> \<bar>of_int (2 ^ 52) * pow2 e - a\<bar>"
      by (rule scale)
    also have "\<dots> = a - pow2 (52 + e)" using G by (simp add: Gk)
    finally have 1: "\<bar>of_int m * pow2 e - a\<bar> \<le> a - pow2 (52 + e)" .
    have "\<bar>of_int k :: rat\<bar> \<le> 2 ^ 53"
      using k by (metis less_imp_le of_int_abs of_int_le_iff of_int_numeral of_int_power)
    then have "\<bar>of_int k * pow2 e'\<bar> \<le> 2 ^ 53 * pow2 e'"
      using pow2_pos[of e'] by (simp add: abs_mult mult_right_mono)
    also have "\<dots> = pow2 (53 + e')"
      using pow2_add[of 53 e'] pow2_nat[of 53] by simp
    also have "\<dots> \<le> pow2 (52 + e)" using False by (intro pow2_mono) simp
    finally have "\<bar>of_int k * pow2 e'\<bar> \<le> pow2 (52 + e)" .
    with G have "a - pow2 (52 + e) \<le> \<bar>of_int k * pow2 e' - a\<bar>" by linarith
    with 1 show ?thesis by linarith
  qed
qed

text \<open>An integer below \<open>2\<^sup>5\<^sup>3\<close> in magnitude is a binary64 value.\<close>

lemma fl64_of_int:
  assumes "\<bar>k\<bar> < 2 ^ 53"
  shows "fl64 (of_int k) = Fin (of_int k)"
proof (cases "k = 0")
  case True
  then show ?thesis by (simp add: fl64_def)
next
  case False
  define a :: rat where "a = \<bar>of_int k\<bar>"
  define e where "e = max (binade a - 52) (- 1074)"
  define m where "m = round_half_even (a / pow2 e)"
  have a: "0 < a" using False by (simp add: a_def)
  have ak: "a = of_int \<bar>k\<bar>" by (simp add: a_def)
  have "\<bar>of_int m * pow2 e - a\<bar> \<le> \<bar>of_int \<bar>k\<bar> * pow2 0 - a\<bar>"
    by (rule grid_nearest[OF a e_def m_def]) (use assms in simp_all)
  then have v: "of_int m * pow2 e = a" by (simp add: ak pow2_def)
  have "a < 2 ^ 53"
    using assms unfolding ak
    by (metis of_int_less_iff of_int_numeral of_int_power)
  also have "\<dots> \<le> pow2 1024" using pow2_mono[of 53 1024] pow2_nat[of 53] by simp
  finally have small: "\<not> pow2 1024 \<le> a" by simp
  have b: "binade (of_int k) = binade a" by (simp add: binade_def a_def)
  have "fl64 (of_int k) = Fin (sgn (of_int k) * a)"
    using False small v
    by (simp add: fl64_def Let_def b flip: a_def e_def m_def)
  then show ?thesis by (simp add: a_def sgn_mult_abs)
qed

text \<open>
  \<^verbatim>\<open>Math.floor(a / b)\<close> on integers is the integer quotient, although the division
  rounds: no binary64 value lies between the quotient and the next integer up that the
  rounding could reach.
\<close>

lemma js_floor_div:
  assumes a: "0 \<le> a" "a < 2 ^ 36" and b: "1 \<le> b" "b \<le> 2 ^ 17"
  shows "js_floor (js_div (Fin (of_int a)) (Fin (of_int b))) = Fin (of_int (a div b))"
proof (cases "a = 0")
  case True
  then show ?thesis using b by (simp add: fl64_def)
next
  case False
  define q :: rat where "q = of_int a / of_int b"
  define n where "n = a div b"
  define e where "e = max (binade q - 52) (- 1074)"
  define m where "m = round_half_even (q / pow2 e)"
  define v where "v = of_int m * pow2 e"
  have bq: "(0::rat) < of_int b" using b by simp
  have q: "0 < q" using False a bq by (simp add: q_def)
  have n0: "0 \<le> n" using a b by (simp add: n_def pos_imp_zdiv_nonneg_iff)
  have na: "n \<le> a" using a b unfolding n_def
    by (metis div_by_1 zdiv_mono2 zero_less_one)
  have lo: "of_int n \<le> q"
  proof -
    have "n * b \<le> a"
      using b pos_mod_sign[of b a] div_mult_mod_eq[of a b] unfolding n_def by linarith
    then have "(of_int (n * b) :: rat) \<le> of_int a" by (simp only: of_int_le_iff)
    then show ?thesis using bq by (simp add: q_def field_simps)
  qed
  have hi: "q \<le> of_int (n + 1) - 1 / of_int b"
  proof -
    have "a mod b \<le> b - 1" using b by (simp add: pos_mod_bound zle_diff1_eq)
    moreover have "a = n * b + a mod b" by (simp add: n_def)
    ultimately have "a + 1 \<le> (n + 1) * b" by (simp add: algebra_simps)
    then have "(of_int (a + 1) :: rat) \<le> of_int ((n + 1) * b)" by (simp only: of_int_le_iff)
    then show ?thesis using bq by (simp add: q_def field_simps)
  qed
  have "(of_int b :: rat) \<le> 2 ^ 17"
    using b by (metis of_int_le_iff of_int_numeral of_int_power)
  then have "1 / (2 ^ 17 :: rat) \<le> 1 / of_int b" using bq by (simp add: field_simps)
  with hi have hi': "q \<le> of_int (n + 1) - 1 / 2 ^ 17" by linarith
  have k1: "\<bar>n\<bar> < 2 ^ 53" using n0 na a by simp
  have "\<bar>v - q\<bar> \<le> \<bar>of_int n * pow2 0 - q\<bar>"
    unfolding v_def by (rule grid_nearest[OF q e_def m_def k1]) simp
  with lo have vlo: "of_int n \<le> v" by (simp add: pow2_def)
  define y where "y = (n + 1) * 2 ^ 17 - 1"
  have k2: "\<bar>y\<bar> < 2 ^ 53" using n0 na a by (simp add: y_def)
  have yv: "of_int y * pow2 (- 17) = of_int (n + 1) - 1 / 2 ^ 17"
    by (simp add: y_def pow2_def field_simps)
  have "\<bar>v - q\<bar> \<le> \<bar>of_int y * pow2 (- 17) - q\<bar>"
    unfolding v_def by (rule grid_nearest[OF q e_def m_def k2]) simp
  with hi' have "v \<le> of_int (n + 1) - 1 / 2 ^ 17" by (simp add: yv)
  then have vhi: "v < of_int n + 1" by simp
  from vlo vhi have fl: "\<lfloor>v\<rfloor> = n" by (simp add: floor_unique)
  have "of_int n + 1 \<le> (2 ^ 36 :: rat)"
  proof -
    have "n + 1 \<le> 2 ^ 36" using na a by simp
    then show ?thesis by (metis of_int_1 of_int_add of_int_le_iff of_int_numeral of_int_power)
  qed
  also have "\<dots> \<le> pow2 1024" using pow2_mono[of 36 1024] pow2_nat[of 36] by simp
  finally have small: "\<not> pow2 1024 \<le> v" using vhi by simp
  have "js_div (Fin (of_int a)) (Fin (of_int b)) = fl64 q"
    using b by (simp add: q_def)
  also have "\<dots> = Fin v"
    using q small by (simp add: fl64_def Let_def flip: e_def m_def v_def)
  finally show ?thesis by (simp add: fl n_def)
qed

subsection \<open>The demultiplexing loops\<close>

lemma read_offset_in_range:
  assumes off: "0 \<le> off" "off \<le> int B" and n: "1 \<le> n"
    and s: "int s < (int B - off) div (2 * int n)" and l: "lead < n"
  shows "0 \<le> read_offset off n s lead" and "nat (read_offset off n s lead) + 2 \<le> B"
proof -
  let ?c = "(int B - off) div (2 * int n)"
  have pos: "0 < 2 * int n" using n by simp
  have "?c * (2 * int n) \<le> int B - off"
    using pos pos_mod_sign[OF pos, of "int B - off"] div_mult_mod_eq[of "int B - off" "2 * int n"]
    by linarith
  moreover have "(int s + 1) * (2 * int n) \<le> ?c * (2 * int n)"
    using s pos by (intro mult_right_mono) simp_all
  ultimately have "(int s + 1) * (2 * int n) \<le> int B - off" by linarith
  moreover have "(int s * int n + int lead) * 2 + 2 \<le> (int s + 1) * (2 * int n)"
    using l by (simp add: algebra_simps)
  ultimately have b: "read_offset off n s lead + 2 \<le> int B"
    by (simp add: read_offset_def)
  show 0: "0 \<le> read_offset off n s lead"
    using off by (simp add: read_offset_def)
  from b 0 show "nat (read_offset off n s lead) + 2 \<le> B" by linarith
qed

lemma filled_step:
  assumes "l < n" "s < count"
  shows "(filled buf off n count s l)
           [l := array_set (filled buf off n count s l ! l) s (sample_of buf off n s l)]
         = filled buf off n count s (Suc l)"
proof (rule nth_equalityI)
  show "length ((filled buf off n count s l)
           [l := array_set (filled buf off n count s l ! l) s (sample_of buf off n s l)])
        = length (filled buf off n count s (Suc l))"
    by (simp add: filled_def)
next
  fix i
  assume "i < length ((filled buf off n count s l)
           [l := array_set (filled buf off n count s l ! l) s (sample_of buf off n s l)])"
  then have i: "i < n" by (simp add: filled_def)
  show "(filled buf off n count s l)
           [l := array_set (filled buf off n count s l ! l) s (sample_of buf off n s l)] ! i
        = filled buf off n count s (Suc l) ! i"
  proof (cases "i = l")
    case False
    with i assms show ?thesis by (auto simp: filled_def)
  next
    case True
    have "array_set (filled buf off n count s l ! l) s (sample_of buf off n s l)
          = filled buf off n count s (Suc l) ! l"
      using assms
      by (intro nth_equalityI) (auto simp: filled_def array_set_def nth_list_update)
    with True i assms show ?thesis by (simp add: filled_def)
  qed
qed

lemma lead_loop_filled:
  assumes reads: "\<And>lead. lead < n \<Longrightarrow>
      0 \<le> read_offset off n s lead \<and> nat (read_offset off n s lead) + 2 \<le> length buf"
    and s: "s < count" and l: "l \<le> n"
  shows "lead_loop buf off n s [l ..< n] (filled buf off n count s l)
         = Inr (filled buf off n count s n)"
  using l
proof (induction "n - l" arbitrary: l)
  case 0
  then show ?case by simp
next
  case (Suc d)
  then have ln: "l < n" by simp
  have g: "getInt16 buf (nat (read_offset off n s l)) = Some (sample_of buf off n s l)"
    using reads[OF ln] by (simp add: getInt16_def sample_of_def)
  have r: "nth_opt (filled buf off n count s l) l = Some (filled buf off n count s l ! l)"
    using ln by (simp add: nth_opt_def filled_def)
  have ih: "lead_loop buf off n s [Suc l ..< n] (filled buf off n count s (Suc l))
       = Inr (filled buf off n count s n)"
    using Suc by (intro Suc.hyps(1)) simp_all
  show ?case
    using ln by (simp add: upt_conv_Cons g r filled_step[OF ln s] ih)
qed

lemma filled_next: "filled buf off n count s n = filled buf off n count (Suc s) 0"
  by (auto simp: filled_def)

lemma filled_start: "filled buf off n count 0 0 = replicate n (replicate count None)"
  by (simp add: filled_def map_replicate_const)

lemma filled_end: "filled buf off n count count 0 = demux buf off n count"
  by (simp add: filled_def demux_def)

lemma sample_loop_filled:
  assumes reads: "\<And>s lead. s < count \<Longrightarrow> lead < n \<Longrightarrow>
      0 \<le> read_offset off n s lead \<and> nat (read_offset off n s lead) + 2 \<le> length buf"
    and s: "s \<le> count"
  shows "sample_loop buf off n (Fin (of_nat count)) s (filled buf off n count s 0)
         = Some (Inr (demux buf off n count))"
  using s
proof (induction "count - s" arbitrary: s)
  case 0
  then have "s = count" by simp
  then show ?case
    by (subst sample_loop.simps) (simp add: filled_end)
next
  case (Suc d)
  then have sc: "s < count" by simp
  have ll: "lead_loop buf off n s [0 ..< n] (filled buf off n count s 0)
      = Inr (filled buf off n count (Suc s) 0)"
    using lead_loop_filled[of n off s buf count 0] reads sc by (simp add: filled_next)
  have ih: "sample_loop buf off n (Fin (of_nat count)) (Suc s) (filled buf off n count (Suc s) 0)
      = Some (Inr (demux buf off n count))"
    using Suc by (intro Suc.hyps(1)) simp_all
  show ?case
    using sc by (subst sample_loop.simps) (simp add: ll ih)
qed

lemma len_int_bound: "n < 2 ^ 32 \<Longrightarrow> int n < 4294967296"
  by simp

lemma parseHeader_parsed:
  assumes "parseHeader p0 = (Inr h, p)"
  shows "header p = Some h" and "buffer p = buffer p0" and "read_header (buffer p) = Some h"
  using assms
  by (auto simp: parseHeader_def Let_def split: if_splits option.splits)

lemma calculateActualSamples_value:
  assumes h: "header p = Some h"
    and n: "1 \<le> nLeads h" "nLeads h < 65536"
    and off: "0 \<le> offsetEcgBlock h" "offsetEcgBlock h \<le> int (length (buffer p))"
    and len: "length (buffer p) < 2 ^ 32"
  shows "calculateActualSamples p = Inr (Fin (of_int (actual_count p h)))"
proof -
  have "int (length (buffer p)) < 4294967296" using len by (rule len_int_bound)
  then have a: "0 \<le> int (length (buffer p)) - offsetEcgBlock h"
    "int (length (buffer p)) - offsetEcgBlock h < 2 ^ 36"
    using off by simp_all
  have b: "1 \<le> 2 * nLeads h" "2 * nLeads h \<le> 2 ^ 17" using n by simp_all
  show ?thesis
    using js_floor_div[OF a b]
    by (simp only: calculateActualSamples_def h option.case Let_def actual_count_def)
qed

lemma actual_count_bounds:
  assumes n: "1 \<le> nLeads h"
    and off: "0 \<le> offsetEcgBlock h" "offsetEcgBlock h \<le> int (length (buffer p))"
  shows "0 \<le> actual_count p h" and "actual_count p h \<le> int (length (buffer p))"
proof -
  let ?a = "int (length (buffer p)) - offsetEcgBlock h"
  have a: "0 \<le> ?a" using off by simp
  show "0 \<le> actual_count p h"
    unfolding actual_count_def using a n by (simp add: pos_imp_zdiv_nonneg_iff)
  have "?a div (2 * nLeads h) \<le> ?a div 1"
    using a n by (intro zdiv_mono2) simp_all
  then show "actual_count p h \<le> int (length (buffer p))"
    unfolding actual_count_def using off by simp
qed

lemma parseEcgData_value:
  assumes h: "header p = Some h"
    and n: "1 \<le> nLeads h" "nLeads h < 65536"
    and off: "0 \<le> offsetEcgBlock h" "offsetEcgBlock h \<le> int (length (buffer p))"
    and len: "length (buffer p) < 2 ^ 32"
  shows "parseEcgData p =
           Some (Inr (demux (buffer p) (offsetEcgBlock h) (nat (nLeads h)) (nat (actual_count p h))),
                 if actual_count p h \<noteq> sampleSizeEcg h
                 then [mismatch_warning (Fin (of_int (actual_count p h))) (sampleSizeEcg h)]
                 else [])"
proof -
  let ?N = "actual_count p h"
  let ?c = "nat ?N"
  let ?L = "nat (nLeads h)"
  note c = actual_count_bounds[OF n(1) off]
  have N: "(of_int ?N :: rat) = of_nat ?c" using c by simp
  have "int (length (buffer p)) < 4294967296" using len by (rule len_int_bound)
  with c have "?N < 4294967296" by simp
  then have "(of_int ?N :: rat) < of_int 4294967296" by (simp only: of_int_less_iff)
  then have "(of_int ?N :: rat) < 2 ^ 32" by simp
  then have arr: "new_Array (Fin (of_int ?N)) = Inr (replicate ?c None)"
    using c by (simp add: new_Array_def)
  have init: "Array_from ?L (new_Array (Fin (of_int ?N))) = Inr (filled (buffer p) (offsetEcgBlock h) ?L ?c 0 0)"
    using n by (simp add: Array_from_def arr filled_start)
  have reads: "0 \<le> read_offset (offsetEcgBlock h) ?L s lead \<and>
       nat (read_offset (offsetEcgBlock h) ?L s lead) + 2 \<le> length (buffer p)"
    if "s < ?c" "lead < ?L" for s lead
  proof -
    have "int s < (int (length (buffer p)) - offsetEcgBlock h) div (2 * int ?L)"
      using that n by (simp add: actual_count_def)
    then show ?thesis
      using read_offset_in_range[OF off _ _ that(2), of s] n by simp
  qed
  have loop: "sample_loop (buffer p) (offsetEcgBlock h) ?L (Fin (of_int ?N)) 0
       (filled (buffer p) (offsetEcgBlock h) ?L ?c 0 0)
     = Some (Inr (demux (buffer p) (offsetEcgBlock h) ?L ?c))"
    unfolding N by (rule sample_loop_filled) (use reads in simp_all)
  have neq: "js_neq (Fin (of_int ?N)) (Fin (of_int (sampleSizeEcg h))) \<longleftrightarrow> ?N \<noteq> sampleSizeEcg h"
    by (simp add: js_neq_def)
  show ?thesis
    by (simp only: parseEcgData_def h option.case calculateActualSamples_value[OF assms]
        sum.case init loop neq prod.case)
qed

lemma sample_loop_not_Some:
  assumes "sample_loop buf off n spl s ecgData = Some y"
  shows "\<not> (n = 0 \<and> spl = PosInf)"
  by (rule sample_loop.raw_induct
        [where P = "\<lambda>buf off n spl s ecgData y. \<not> (n = 0 \<and> spl = PosInf)", OF _ assms])
     (auto split: if_splits sum.splits)

lemma sample_loop_diverges: "sample_loop buf off 0 PosInf s ecgData = None"
  using sample_loop_not_Some[of buf off 0 PosInf s ecgData] by (cases "sample_loop buf off 0 PosInf s ecgData") auto

lemma calculateActualSamples_zero_leads:
  assumes "header p = Some h" and "nLeads h = 0"
  shows "calculateActualSamples p =
           Inr (if int (length (buffer p)) = offsetEcgBlock h then NaN
                else if offsetEcgBlock h < int (length (buffer p)) then PosInf else NegInf)"
  using assms by (simp add: calculateActualSamples_def Let_def)

text \<open>Not part of any claim: with no leads and bytes after the ECG offset the loop never ends.\<close>

lemma parseEcgData_zero_leads_diverges:
  assumes "header p = Some h" and "nLeads h = 0" and "offsetEcgBlock h < int (length (buffer p))"
  shows "parseEcgData p = None"
  using assms
  by (simp add: parseEcgData_def calculateActualSamples_zero_leads[OF assms(1,2)]
      Array_from_def sample_loop_diverges)


subsection \<open>The sample decoder\<close>

lemma demux_shape:
  "length (demux buf off n count) = n"
  "lead \<in> set (demux buf off n count) \<Longrightarrow> length lead = count"
  by (auto simp: demux_def)

lemma scenario_valid:
  "1 \<le> nLeads scenario_header"
  "offsetEcgBlock scenario_header \<le> int (length (buffer scenario_parser))"
  "length (buffer scenario_parser) < 2 ^ 32"
  "actual_count scenario_parser scenario_header = 2"
  by (simp_all add: scenario_header_def scenario_parser_def scenario_length actual_count_def)

lemma scenario_fields:
  "buffer scenario_parser = scenario_buffer"
  "header scenario_parser = Some scenario_header"
  "nLeads scenario_header = 2"
  "offsetEcgBlock scenario_header = 600"
  "sampleSizeEcg scenario_header = 3"
  "samplingRate scenario_header = 250"
  "resolution scenario_header = [200, 200] @ replicate 10 0"
  by (simp_all add: scenario_header_def scenario_parser_def)

lemma parsed_valid:
  assumes "parseHeader p0 = (Inr h, p)"
  shows "header p = Some h" and "nLeads h < 65536" and "0 \<le> offsetEcgBlock h"
  using parseHeader_parsed[OF assms] read_header_ranges[of "buffer p" h] by simp_all

text \<open>
  Claim C1. For a parsed header with at least one lead and an ECG offset \<open>O\<close> within a
  buffer of \<open>B\<close> bytes (\<open>B < 2\<^sup>3\<^sup>2\<close>), \<^verbatim>\<open>calculateActualSamples\<close> returns exactly
  \<open>\<lfloor>(B - O) / (2 L)\<rfloor>\<close>, although it divides in binary64; \<^verbatim>\<open>getEcgSummary\<close> reports this
  value, and \<^verbatim>\<open>parseEcgData\<close> returns one sequence of this length per lead.
\<close>

theorem actual_samples_is_floor:
  assumes "parseHeader p0 = (Inr h, p)"
    and "1 \<le> nLeads h"
    and "offsetEcgBlock h \<le> int (length (buffer p))"
    and "length (buffer p) < 2 ^ 32"
  shows "actual_count p h =
           \<lfloor>(of_nat (length (buffer p)) - of_int (offsetEcgBlock h)) / (2 * of_int (nLeads h)) :: rat\<rfloor> \<and>
         calculateActualSamples p = Inr (Fin (of_int (actual_count p h))) \<and>
         (\<exists>s. getEcgSummary p = Inr s \<and> actualSamplesPerLead s = Fin (of_int (actual_count p h))) \<and>
         (\<exists>ecgData logs. parseEcgData p = Some (Inr ecgData, logs) \<and>
            length ecgData = nat (nLeads h) \<and>
            (\<forall>lead \<in> set ecgData. length lead = nat (actual_count p h)))"
proof -
  note v = parsed_valid[OF assms(1)]
  have "(of_nat (length (buffer p)) - of_int (offsetEcgBlock h)) / (2 * of_int (nLeads h) :: rat)
        = of_int (int (length (buffer p)) - offsetEcgBlock h) / of_int (2 * nLeads h)"
    by simp
  then have 1: "actual_count p h =
      \<lfloor>(of_nat (length (buffer p)) - of_int (offsetEcgBlock h)) / (2 * of_int (nLeads h)) :: rat\<rfloor>"
    by (simp only: actual_count_def floor_divide_of_int_eq)
  have 2: "calculateActualSamples p = Inr (Fin (of_int (actual_count p h)))"
    by (rule calculateActualSamples_value[OF v(1) assms(2) v(2,3) assms(3,4)])
  have 3: "\<exists>s. getEcgSummary p = Inr s \<and> actualSamplesPerLead s = Fin (of_int (actual_count p h))"
    by (simp add: getEcgSummary_def v(1) 2)
  have 4: "\<exists>ecgData logs. parseEcgData p = Some (Inr ecgData, logs) \<and>
            length ecgData = nat (nLeads h) \<and>
            (\<forall>lead \<in> set ecgData. length lead = nat (actual_count p h))"
    using parseEcgData_value[OF v(1) assms(2) v(2,3) assms(3,4)] demux_shape by blast
  from 1 2 3 4 show ?thesis by blast
qed

theorem actual_samples_is_floor_witness:
  "parseHeader \<lparr> buffer = scenario_buffer, header = None \<rparr> = (Inr scenario_header, scenario_parser) \<and>
   1 \<le> nLeads scenario_header \<and>
   offsetEcgBlock scenario_header \<le> int (length (buffer scenario_parser)) \<and>
   length (buffer scenario_parser) < 2 ^ 32 \<and>
   calculateActualSamples scenario_parser = Inr (Fin 2)"
  using actual_samples_is_floor[OF scenario_parseHeader scenario_valid(1,2,3)]
    scenario_parseHeader scenario_valid
  by simp

text \<open>
  Claim C2. Under the same conditions every read of the demultiplexing loops is inside the
  buffer: for each sample index below the actual count and each lead index, the two bytes
  at \<^verbatim>\<open>offsetEcgBlock + (sample * nLeads + lead) * 2\<close> lie in \<open>[0, B)\<close>, so that the
  bounds check of \<^verbatim>\<open>getInt16\<close> passes, and \<^verbatim>\<open>parseEcgData\<close> returns without an exception.
\<close>

theorem demux_reads_in_bounds:
  assumes "parseHeader p0 = (Inr h, p)"
    and "1 \<le> nLeads h"
    and "offsetEcgBlock h \<le> int (length (buffer p))"
    and "length (buffer p) < 2 ^ 32"
  shows "(\<forall>sample lead. int sample < actual_count p h \<and> int lead < nLeads h \<longrightarrow>
            0 \<le> read_offset (offsetEcgBlock h) (nat (nLeads h)) sample lead \<and>
            nat (read_offset (offsetEcgBlock h) (nat (nLeads h)) sample lead) + 2
              \<le> length (buffer p) \<and>
            getInt16 (buffer p) (nat (read_offset (offsetEcgBlock h) (nat (nLeads h)) sample lead))
              \<noteq> None) \<and>
         (\<exists>ecgData logs. parseEcgData p = Some (Inr ecgData, logs))"
proof -
  note v = parsed_valid[OF assms(1)]
  have "0 \<le> read_offset (offsetEcgBlock h) (nat (nLeads h)) sample lead \<and>
        nat (read_offset (offsetEcgBlock h) (nat (nLeads h)) sample lead) + 2 \<le> length (buffer p)"
    if "int sample < actual_count p h" "int lead < nLeads h" for sample lead
  proof -
    have "int sample < (int (length (buffer p)) - offsetEcgBlock h) div (2 * int (nat (nLeads h)))"
      using that(1) assms(2) by (simp add: actual_count_def)
    moreover have "lead < nat (nLeads h)" using that(2) by simp
    moreover have "1 \<le> nat (nLeads h)" using assms(2) by simp
    ultimately show ?thesis
      using read_offset_in_range[OF v(3) assms(3)] by blast
  qed
  then have 1: "\<forall>sample lead. int sample < actual_count p h \<and> int lead < nLeads h \<longrightarrow>
            0 \<le> read_offset (offsetEcgBlock h) (nat (nLeads h)) sample lead \<and>
            nat (read_offset (offsetEcgBlock h) (nat (nLeads h)) sample lead) + 2
              \<le> length (buffer p) \<and>
            getInt16 (buffer p) (nat (read_offset (offsetEcgBlock h) (nat (nLeads h)) sample lead))
              \<noteq> None"
    by (simp add: getInt16_def)
  have 2: "\<exists>ecgData logs. parseEcgData p = Some (Inr ecgData, logs)"
    using parseEcgData_value[OF v(1) assms(2) v(2,3) assms(3,4)] by blast
  from 1 2 show ?thesis by blast
qed

theorem demux_reads_in_bounds_witness:
  "parseHeader \<lparr> buffer = scenario_buffer, header = None \<rparr> = (Inr scenario_header, scenario_parser) \<and>
   1 \<le> nLeads scenario_header \<and>
   offsetEcgBlock scenario_header \<le> int (length (buffer scenario_parser)) \<and>
   length (buffer scenario_parser) < 2 ^ 32 \<and>
   read_offset 600 2 1 1 = 606 \<and> length scenario_buffer = 608 \<and>
   getInt16 scenario_buffer 606 \<noteq> None \<and>
   (\<exists>ecgData logs. parseEcgData scenario_parser = Some (Inr ecgData, logs))"
proof -
  note t = demux_reads_in_bounds[OF scenario_parseHeader scenario_valid(1,2,3)]
  have r: "read_offset 600 2 1 1 = 606" by (simp add: read_offset_def)
  from t have "int 1 < actual_count scenario_parser scenario_header \<and> int 1 < nLeads scenario_header \<longrightarrow>
      getInt16 (buffer scenario_parser)
        (nat (read_offset (offsetEcgBlock scenario_header) (nat (nLeads scenario_header)) 1 1)) \<noteq> None"
    by blast
  then have "getInt16 scenario_buffer 606 \<noteq> None"
    using r by (simp add: scenario_valid(4) scenario_fields)
  with t r show ?thesis
    using scenario_parseHeader scenario_valid scenario_length by blast
qed


lemma scenario_demux:
  "demux scenario_buffer 600 2 2 = [[Some 75, Some 1250], [Some (- 75), Some (- 32768)]]"
  by code_simp

lemma scenario_warning:
  "mismatch_warning (Fin 2) 3 =
     Warn (lit ''Warning: Actual number of samples (2) differs from header metadata (3)'')"
  by code_simp

lemma scenario_parseEcgData:
  "parseEcgData scenario_parser =
     Some (Inr [[Some 75, Some 1250], [Some (- 75), Some (- 32768)]],
           [Warn (lit ''Warning: Actual number of samples (2) differs from header metadata (3)'')])"
proof -
  have "header scenario_parser = Some scenario_header" "nLeads scenario_header < 65536"
    "0 \<le> offsetEcgBlock scenario_header"
    by (simp_all add: scenario_fields)
  from parseEcgData_value[OF this(1) scenario_valid(1) this(2,3) scenario_valid(2,3)]
  show ?thesis
    by (simp add: scenario_valid(4) scenario_fields scenario_demux scenario_warning)
qed





subsection \<open>The exporters on decoded samples\<close>

lemma then_gen_simps [simp]:
  "then_gen (cs, None) (ds, r) = (cs @ ds, r)"
  "then_gen (cs, Some e) b = (cs, Some e)"
  by (simp_all add: then_gen_def)

lemma yield_each_all:
  assumes "\<And>i. i \<in> set js \<Longrightarrow> f i = Inr (g i)"
  shows "yield_each f js = (map g js, None)"
  using assms by (induction js) (simp_all add: yield_def)

lemma collect_all: "collect (map Inr vs) = Inr vs"
  by (induction vs) simp_all

lemma toFixed_valid: "0 \<le> d \<Longrightarrow> d \<le> 100 \<Longrightarrow> toFixed x d = Inr (fixed_notation x (nat d))"
  by (simp add: toFixed_def)

lemma nth_opt_demux:
  "lead < n \<Longrightarrow> nth_opt (demux buf off n count) lead =
     Some (map (\<lambda>s. Some (sample_of buf off n s lead)) [0 ..< count])"
  by (simp add: nth_opt_def demux_def)

lemma sample_at_demux:
  "lead < n \<Longrightarrow> i < count \<Longrightarrow>
   sample_at (demux buf off n count) lead i = Inr (Some (sample_of buf off n i lead))"
  by (simp add: sample_at_def nth_opt_demux) (simp add: nth_opt_def)

lemma csv_row_demux:
  assumes d: "0 \<le> d" "d \<le> 100" and i: "i < count"
  shows "csv_row h (demux buf (offsetEcgBlock h) (nat (nLeads h)) count) sep tc d i
         = Inr (csv_line h buf sep tc (nat d) i)"
proof -
  let ?e = "demux buf (offsetEcgBlock h) (nat (nLeads h)) count"
  have v: "map (csv_value h ?e d i) [0 ..< nat (nLeads h)]
      = map Inr (map (csv_cell h buf (nat d) i) [0 ..< nat (nLeads h)])"
    using d i by (simp add: csv_value_def sample_at_demux toFixed_valid csv_cell_def)
  have "csv_fields h ?e tc d i
      = map Inr ((if tc then [fixed_notation (time_of h i) (nat d)] else []) @
                 map (csv_cell h buf (nat d) i) [0 ..< nat (nLeads h)])"
    using d by (simp add: csv_fields_def v toFixed_valid)
  then show ?thesis
    by (simp only: csv_row_def collect_all sum.case csv_line_def)
qed

lemma csv_chunks_demux:
  assumes d: "0 \<le> d" "d \<le> 100" and n: "1 \<le> nLeads h"
  shows "csv_chunks h (demux buf (offsetEcgBlock h) (nat (nLeads h)) count) sep ih tc d
         = ((if ih then [join sep (csv_headers tc (nat (nLeads h))) @ nl] else []) @
            map (csv_line h buf sep tc (nat d)) [0 ..< count], None)"
proof -
  let ?e = "demux buf (offsetEcgBlock h) (nat (nLeads h)) count"
  have 0: "nth_opt ?e 0 = Some (map (\<lambda>s. Some (sample_of buf (offsetEcgBlock h) (nat (nLeads h)) s 0)) [0 ..< count])"
    using n by (simp add: nth_opt_demux)
  have rows: "yield_each (csv_row h ?e sep tc d) [0 ..< count]
      = (map (csv_line h buf sep tc (nat d)) [0 ..< count], None)"
    by (rule yield_each_all) (simp add: csv_row_demux[OF d])
  show ?thesis
    by (simp add: csv_chunks_def csv_data_rows_def 0 rows yield_def)
qed

lemma gen_concat_all: "gen_concat (map (\<lambda>x. (g x, None)) xs) = (concat (map g xs), None)"
  by (induction xs) simp_all

lemma rounded_valid:
  "0 \<le> d \<Longrightarrow> d \<le> 100 \<Longrightarrow> rounded x d = Inr (js_Number (fixed_notation x (nat d)))"
  by (simp add: rounded_def toFixed_valid)

lemma json_lead_demux:
  assumes d: "0 \<le> d" "d \<le> 100" and l: "lead < nat (nLeads h)"
  shows "json_lead h (demux buf (offsetEcgBlock h) (nat (nLeads h)) count) d lead
         = (json_lead_block h buf (nat d) count lead, None)"
proof -
  let ?arr = "map (\<lambda>s. Some (sample_of buf (offsetEcgBlock h) (nat (nLeads h)) s lead)) [0 ..< count]"
  have v: "json_value h d lead ?arr i = Inr (json_cell h buf (nat d) count lead i)"
    if "i < count" for i
    using that d by (simp add: json_value_def nth_opt_def rounded_valid json_cell_def csv_cell_def)
  have "yield_each (json_value h d lead ?arr) [0 ..< length ?arr]
      = (map (json_cell h buf (nat d) count lead) [0 ..< length ?arr], None)"
    by (rule yield_each_all) (simp add: v)
  then show ?thesis
    using l by (simp add: json_lead_def nth_opt_demux yield_def json_lead_block_def)
qed

lemma json_chunks_demux:
  assumes d: "0 \<le> d" "d \<le> 100" and n: "1 \<le> nLeads h"
  shows "json_chunks stringify h (demux buf (offsetEcgBlock h) (nat (nLeads h)) count) tc d
         = ([lit ''{'' @ nl @ lit ''  \"metadata\": '',
             stringify (metadata_of h count),
             lit '','' @ nl @ lit ''  \"data\": {'' @ nl] @
            (if tc then json_time_block h (nat d) count else []) @
            [lit ''    \"leads\": ['' @ nl] @
            concat (map (json_lead_block h buf (nat d) count) [0 ..< nat (nLeads h)]) @
            [lit ''    ]'' @ nl @ lit ''  }'' @ nl @ lit ''}''], None)"
proof -
  let ?e = "demux buf (offsetEcgBlock h) (nat (nLeads h)) count"
  have 0: "nth_opt ?e 0 = Some (map (\<lambda>s. Some (sample_of buf (offsetEcgBlock h) (nat (nLeads h)) s 0)) [0 ..< count])"
    using n by (simp add: nth_opt_demux)
  have t: "json_time h d count i =
      Inr (lit ''      '' @ Number_toString (js_Number (fixed_notation (time_of h i) (nat d))) @
           (if int i < int count - 1 then lit '','' else []) @ nl)" for i
    using d by (simp add: json_time_def rounded_valid)
  have time: "yield_each (json_time h d count) [0 ..< count]
      = (map (\<lambda>i. lit ''      '' @ Number_toString (js_Number (fixed_notation (time_of h i) (nat d))) @
           (if int i < int count - 1 then lit '','' else []) @ nl) [0 ..< count], None)"
    by (rule yield_each_all) (rule t)
  have "map (json_lead h ?e d) [0 ..< nat (nLeads h)]
      = map (\<lambda>lead. (json_lead_block h buf (nat d) count lead, None)) [0 ..< nat (nLeads h)]"
    by (rule map_cong) (simp_all add: json_lead_demux[OF d])
  then have leads: "gen_concat (map (json_lead h ?e d) [0 ..< nat (nLeads h)])
      = (concat (map (json_lead_block h buf (nat d) count) [0 ..< nat (nLeads h)]), None)"
    by (simp only: gen_concat_all)
  show ?thesis
    by (simp add: json_chunks_def 0 time leads yield_def json_time_block_def)
qed

lemma generateCsvContent_valid:
  assumes "parseHeader p0 = (Inr h, p)"
    and "1 \<le> nLeads h"
    and "offsetEcgBlock h \<le> int (length (buffer p))"
    and "length (buffer p) < 2 ^ 32"
    and "0 \<le> decimalPlaces_of options" and "decimalPlaces_of options \<le> 100"
  shows "generateCsvContent p options =
     Some (((if includeHeader_of options
             then [join (separator_of options)
                     (csv_headers (timeColumn_of options) (nat (nLeads h))) @ nl]
             else []) @
            map (csv_line h (buffer p) (separator_of options) (timeColumn_of options)
                   (nat (decimalPlaces_of options)))
              [0 ..< nat (actual_count p h)], None),
           if actual_count p h \<noteq> sampleSizeEcg h
           then [mismatch_warning (Fin (of_int (actual_count p h))) (sampleSizeEcg h)]
           else [])"
proof -
  note v = parsed_valid[OF assms(1)]
  note e = parseEcgData_value[OF v(1) assms(2) v(2,3) assms(3,4)]
  show ?thesis
    by (simp only: generateCsvContent_def v(1) option.case e prod.case sum.case
        csv_chunks_demux[OF assms(5,6,2)])
qed

lemma generateJsonContent_valid:
  assumes "parseHeader p0 = (Inr h, p)"
    and "1 \<le> nLeads h"
    and "offsetEcgBlock h \<le> int (length (buffer p))"
    and "length (buffer p) < 2 ^ 32"
    and "0 \<le> decimalPlaces_of options" and "decimalPlaces_of options \<le> 100"
  shows "generateJsonContent stringify p options =
     Some (([lit ''{'' @ nl @ lit ''  \"metadata\": '',
             stringify (metadata_of h (nat (actual_count p h))),
             lit '','' @ nl @ lit ''  \"data\": {'' @ nl] @
            (if timeColumn_of options
             then json_time_block h (nat (decimalPlaces_of options)) (nat (actual_count p h))
             else []) @
            [lit ''    \"leads\": ['' @ nl] @
            concat (map (json_lead_block h (buffer p) (nat (decimalPlaces_of options))
                           (nat (actual_count p h))) [0 ..< nat (nLeads h)]) @
            [lit ''    ]'' @ nl @ lit ''  }'' @ nl @ lit ''}''], None),
           if actual_count p h \<noteq> sampleSizeEcg h
           then [mismatch_warning (Fin (of_int (actual_count p h))) (sampleSizeEcg h)]
           else [])"
proof -
  note v = parsed_valid[OF assms(1)]
  note e = parseEcgData_value[OF v(1) assms(2) v(2,3) assms(3,4)]
  show ?thesis
    by (simp only: generateJsonContent_def v(1) option.case e prod.case sum.case
        json_chunks_demux[OF assms(5,6,2)])
qed

subsection \<open>What the fixed notation denotes\<close>

lemma uint_digit:
  assumes "0 \<le> d" "d \<le> 9"
  shows "uint (digit d) = 48 + d"
proof -
  have "uint (word_of_int (48 + d) :: 16 word) = take_bit 16 (48 + d)"
    by (simp only: uint_word_of_int_eq) simp
  also have "\<dots> = 48 + d"
    using assms by (intro take_bit_int_eq_self) simp_all
  finally show ?thesis by (simp only: digit_def)
qed

lemma is_digit_digit: "0 \<le> d \<Longrightarrow> d \<le> 9 \<Longrightarrow> is_digit (digit d)"
  by (simp add: is_digit_def word_le_def uint_digit)

lemma digit_not_sign: "0 \<le> d \<Longrightarrow> d \<le> 9 \<Longrightarrow> digit d \<noteq> 45 \<and> digit d \<noteq> 43 \<and> digit d \<noteq> 73"
  using uint_digit[of d] by (auto simp: word_uint_eq_iff)

lemma digits_value_snoc: "digits_value (xs @ [c]) = 10 * digits_value xs + (uint c - 48)"
  by (simp add: digits_value_def)

lemma show_int_props:
  "0 \<le> n \<Longrightarrow> show_int n \<noteq> [] \<and> list_all is_digit (show_int n) \<and> digits_value (show_int n) = n
     \<and> hd (show_int n) \<noteq> 45 \<and> hd (show_int n) \<noteq> 43 \<and> hd (show_int n) \<noteq> 73"
proof (induction n rule: show_int.induct)
  case (1 n)
  show ?case
  proof (cases "n < 10")
    case True
    with 1(2) have s: "show_int n = [digit n]" by (subst show_int.simps) simp
    from True 1(2) show ?thesis
      using digit_not_sign[of n]
      by (simp add: s is_digit_digit digits_value_def uint_digit)
  next
    case False
    then have s: "show_int n = show_int (n div 10) @ [digit (n mod 10)]"
      by (subst show_int.simps) simp
    have "0 \<le> n div 10" using 1(2) by simp
    with 1(1)[OF False] have ih: "show_int (n div 10) \<noteq> []"
      "list_all is_digit (show_int (n div 10))"
      "digits_value (show_int (n div 10)) = n div 10"
      "hd (show_int (n div 10)) \<noteq> 45" "hd (show_int (n div 10)) \<noteq> 43"
      "hd (show_int (n div 10)) \<noteq> 73"
      by simp_all
    have m: "0 \<le> n mod 10" "n mod 10 \<le> 9" by simp_all
    show ?thesis
      using ih m by (simp add: s is_digit_digit digits_value_snoc uint_digit)
  qed
qed

lemma digits_value_zeros: "digits_value (replicate z 48 @ m) = digits_value m"
proof -
  have "foldl (\<lambda>v c. 10 * v + (uint c - 48)) 0 (replicate z (48 :: 16 word)) = 0"
    by (induction z) simp_all
  then show ?thesis by (simp add: digits_value_def)
qed

lemma not_digit_point: "\<not> is_digit 46"
  by (simp add: is_digit_def)

lemma is_digit_48: "is_digit 48"
  by (simp add: is_digit_def)

lemma parse_digits:
  assumes "a \<noteq> []" "list_all is_digit a"
  shows "parse_unsigned a = Some (of_int (digits_value a))"
proof -
  have tw: "takeWhile is_digit a = a" "dropWhile is_digit a = []"
    using assms by (simp_all add: list_all_iff)
  show ?thesis using assms(1) by (simp add: parse_unsigned_def Let_def pow10_def tw)
qed

lemma parse_point:
  assumes "a \<noteq> []" "list_all is_digit a" "list_all is_digit b"
  shows "parse_unsigned (a @ lit ''.'' @ b)
         = Some (of_int (digits_value (a @ b)) / 10 ^ length b)"
proof -
  have l: "lit ''.'' = [46]" by (simp add: lit_def)
  have t: "takeWhile is_digit (a @ 46 # b) = a"
    using assms by (simp add: takeWhile_append2 list_all_iff not_digit_point)
  have d: "dropWhile is_digit (a @ 46 # b) = 46 # b"
    using assms by (simp add: dropWhile_append2 list_all_iff not_digit_point)
  have tb: "takeWhile is_digit b = b" "dropWhile is_digit b = []"
    using assms by (simp_all add: list_all_iff)
  have p: "pow10 (- int (length b)) = 1 / 10 ^ length b"
    by (simp add: pow10_def)
  show ?thesis
    using assms(1) by (simp add: parse_unsigned_def Let_def l t d tb p)
qed

lemma parse_fixed_string:
  assumes "0 \<le> n"
  shows "parse_unsigned (fixed_string n f) = Some (of_int n / 10 ^ f)"
    and "fixed_string n f \<noteq> []"
    and "hd (fixed_string n f) \<noteq> 45 \<and> hd (fixed_string n f) \<noteq> 43 \<and> hd (fixed_string n f) \<noteq> 73"
proof -
  note p = show_int_props[OF assms]
  let ?m = "show_int n"
  have "parse_unsigned (fixed_string n f) = Some (of_int n / 10 ^ f) \<and> fixed_string n f \<noteq> []
     \<and> hd (fixed_string n f) \<noteq> 45 \<and> hd (fixed_string n f) \<noteq> 43 \<and> hd (fixed_string n f) \<noteq> 73"
  proof (cases "f = 0")
    case True
    then show ?thesis using p parse_digits[of ?m] by (simp add: fixed_string_def)
  next
    case False
    define m' where "m' = (if length ?m \<le> f then replicate (f + 1 - length ?m) 48 @ ?m else ?m)"
    have dig: "list_all is_digit m'" using p by (simp add: m'_def is_digit_48 list_all_iff)
    have val: "digits_value m' = n" using p by (simp add: m'_def digits_value_zeros)
    have len: "f < length m'" by (simp add: m'_def)
    have h: "hd m' \<noteq> 45 \<and> hd m' \<noteq> 43 \<and> hd m' \<noteq> 73"
      using p by (auto simp: m'_def hd_append)
    let ?a = "take (length m' - f) m'"
    let ?b = "drop (length m' - f) m'"
    have a: "?a \<noteq> []" using len by (cases m') simp_all
    have da: "list_all is_digit ?a" "list_all is_digit ?b"
      using dig by (auto simp: list_all_iff dest: in_set_takeD in_set_dropD)
    have lb: "length ?b = f" using len by simp
    have fs: "fixed_string n f = ?a @ lit ''.'' @ ?b"
      using False by (simp add: fixed_string_def Let_def m'_def)
    have "parse_unsigned (fixed_string n f) = Some (of_int (digits_value (?a @ ?b)) / 10 ^ length ?b)"
      unfolding fs by (rule parse_point[OF a da])
    then have 1: "parse_unsigned (fixed_string n f) = Some (of_int n / 10 ^ f)"
      by (simp only: append_take_drop_id val lb)
    obtain k where k: "length m' - f = Suc k" using len by (cases "length m' - f") auto
    obtain x xs where x: "m' = x # xs" using len by (cases m') auto
    have "take (length m' - f) m' = take (Suc k) m'" by (simp only: k)
    also have "\<dots> = x # take k xs" by (simp add: x)
    finally have "hd (fixed_string n f) = hd m'" by (simp add: fs x)
    with 1 h a show ?thesis by (simp add: fs)
  qed
  then show "parse_unsigned (fixed_string n f) = Some (of_int n / 10 ^ f)"
    and "fixed_string n f \<noteq> []"
    and "hd (fixed_string n f) \<noteq> 45 \<and> hd (fixed_string n f) \<noteq> 43 \<and> hd (fixed_string n f) \<noteq> 73"
    by simp_all
qed

lemma fixed_digits_nonneg: "0 \<le> a \<Longrightarrow> 0 \<le> fixed_digits a f"
  by (simp add: fixed_digits_def)

lemma floor_half: "\<lfloor>1 / 2 :: rat\<rfloor> = 0"
  by (rule floor_unique) simp_all

lemma round_places_nonneg:
  "0 \<le> q \<Longrightarrow> round_places q f = of_int (fixed_digits \<bar>q\<bar> f) / 10 ^ f"
  by (cases "q = 0") (simp_all add: round_places_def fixed_digits_def floor_half)

lemma round_places_neg:
  "q < 0 \<Longrightarrow> round_places q f = - (of_int (fixed_digits \<bar>q\<bar> f) / 10 ^ f)"
  by (simp add: round_places_def fixed_digits_def)

lemma lit_minus: "lit ''-'' = [45]"
  by (simp add: lit_def)

lemma lit_Infinity_hd: "hd (lit ''Infinity'') = 73"
  by (simp add: lit_def)

lemma fixed_notation_decimal:
  assumes "\<bar>q\<bar> < 10 ^ 21"
  shows "decimal_of (fixed_notation (Fin q) f) = Some (round_places q f)"
    and "js_Number (fixed_notation (Fin q) f) = fl64 (round_places q f)"
proof -
  define n where "n = fixed_digits \<bar>q\<bar> f"
  define t where "t = fixed_string n f"
  define v :: rat where "v = of_int n / 10 ^ f"
  have n: "0 \<le> n" unfolding n_def by (rule fixed_digits_nonneg) simp
  note p = parse_fixed_string[OF n, of f, folded t_def v_def]
  obtain c r where cr: "t = c # r" using p(2) by (cases t) auto
  with p(3) have c: "c \<noteq> 45" "c \<noteq> 43" "c \<noteq> 73" by simp_all
  have inf: "t \<noteq> lit ''Infinity''" using cr c by (auto simp: lit_def)
  have fn: "fixed_notation (Fin q) f = (if q < 0 then lit ''-'' else []) @ t"
    using assms by (simp add: fixed_notation_def t_def n_def)
  have rp: "round_places q f = (if q < 0 then - v else v)"
    using round_places_neg[of q f] round_places_nonneg[of q f]
    by (simp add: v_def n_def)
  have pc: "parse_unsigned (c # r) = Some v" using p(1) by (simp only: cr)
  show "decimal_of (fixed_notation (Fin q) f) = Some (round_places q f)"
    using c by (simp add: fn rp decimal_of_def lit_minus p(1)) (simp add: cr pc)
  show "js_Number (fixed_notation (Fin q) f) = fl64 (round_places q f)"
    using c inf by (simp add: fn rp js_Number_def lit_minus p(1)) (simp add: cr pc)
qed

lemma int16_at_range: "- 32768 \<le> int16_at buf off \<and> int16_at buf off \<le> 32767"
proof -
  define a where "a = uint (buf ! off)"
  define b where "b = uint (buf ! (off + 1))"
  have "0 \<le> a" "a < 256" "0 \<le> b" "b < 256"
    using uint_byte_range[of "buf ! off"] uint_byte_range[of "buf ! (off + 1)"]
    by (simp_all add: a_def b_def)
  moreover have "int16_at buf off = (if 32768 \<le> a + 256 * b then a + 256 * b - 65536 else a + 256 * b)"
    by (simp add: int16_at_def Let_def a_def b_def)
  ultimately show ?thesis by (simp split: if_splits)
qed

lemma resolution_range:
  assumes "read_header buf = Some h" and "lead < 12"
  shows "nth_opt (resolution h) lead = Some (resolution h ! lead)"
    and "- 32768 \<le> resolution h ! lead" and "resolution h ! lead \<le> 32767"
proof -
  from read_header_binds[OF assms(1)]
  have r: "getInt16_array buf 206 = Some (resolution h)" by auto
  from getInt16_array_values[OF r] assms(2)
  have l: "length (resolution h) = 12" and v: "resolution h ! lead = int16_at buf (206 + lead * 2)"
    by simp_all
  show "nth_opt (resolution h) lead = Some (resolution h ! lead)"
    using l assms(2) by (simp add: nth_opt_def)
  show "- 32768 \<le> resolution h ! lead" "resolution h ! lead \<le> 32767"
    using int16_at_range[of buf "206 + lead * 2"] by (simp_all add: v)
qed

lemma round_half_even_nonneg: "0 \<le> t \<Longrightarrow> 0 \<le> round_half_even t"
  by (simp add: round_half_even_def Let_def)

lemma fl64_small:
  assumes "\<bar>q\<bar> \<le> 2 ^ 40"
  shows "\<exists>v. fl64 q = Fin v \<and> \<bar>v\<bar> < 10 ^ 21"
proof (cases "q = 0")
  case True
  then show ?thesis by (simp add: fl64_def)
next
  case False
  define a where "a = \<bar>q\<bar>"
  define e where "e = max (binade a - 52) (- 1074)"
  define m where "m = round_half_even (a / pow2 e)"
  define v where "v = of_int m * pow2 e"
  have a: "0 < a" using False by (simp add: a_def)
  have "\<bar>v - a\<bar> \<le> \<bar>of_int 0 * pow2 0 - a\<bar>"
    unfolding v_def by (rule grid_nearest[OF a e_def m_def]) simp_all
  then have v2: "v \<le> 2 * a" using a by simp
  have "0 \<le> a / pow2 e" using a pow2_pos[of e] by simp
  then have "0 \<le> m" unfolding m_def by (rule round_half_even_nonneg)
  then have v0: "0 \<le> v" using pow2_pos[of e] by (simp add: v_def)
  have a40: "a \<le> 2 ^ 40" using assms by (simp add: a_def)
  have "(2 :: rat) ^ 42 \<le> pow2 1024" using pow2_mono[of 42 1024] pow2_nat[of 42] by simp
  with v2 a40 have small: "\<not> pow2 1024 \<le> v" by simp
  have b: "binade q = binade a" by (simp add: binade_def a_def)
  have "fl64 q = Fin (sgn q * v)"
    using False small
    by (simp add: fl64_def Let_def b flip: a_def e_def m_def v_def)
  moreover have "\<bar>sgn q * v\<bar> = v" using v0 False by (simp add: abs_mult)
  moreover have "v < 10 ^ 21" using v2 a40 by simp
  ultimately show ?thesis by simp
qed

lemma scaled_value:
  assumes res: "nth_opt (resolution h) lead = Some r" "- 32768 \<le> r" "r \<le> 32767"
    and raw: "- 32768 \<le> raw" "raw \<le> 32767"
  shows "scaled h lead (Some raw) = fl64 (of_int (raw * r) / 1000000)"
    and "\<exists>q. scaled h lead (Some raw) = Fin q \<and> \<bar>q\<bar> < 10 ^ 21"
proof -
  have b: "\<bar>raw * r\<bar> \<le> 32768 * 32768"
    unfolding abs_mult using res(2,3) raw by (intro mult_mono) simp_all
  then have "\<bar>raw * r\<bar> < 2 ^ 53" by simp
  then have m: "fl64 (of_int raw * of_int r) = Fin (of_int (raw * r))"
    using fl64_of_int[of "raw * r"] by simp
  show s: "scaled h lead (Some raw) = fl64 (of_int (raw * r) / 1000000)"
    by (simp add: scaled_def to_num_def res(1) m del: of_int_mult)
  have "\<bar>of_int (raw * r) / 1000000 :: rat\<bar> \<le> \<bar>of_int (raw * r)\<bar>"
    by (simp add: divide_le_eq)
  also have "\<dots> \<le> of_int (32768 * 32768)"
    using b by (simp only: of_int_abs[symmetric] of_int_le_iff)
  also have "\<dots> \<le> 2 ^ 40" by simp
  finally show "\<exists>q. scaled h lead (Some raw) = Fin q \<and> \<bar>q\<bar> < 10 ^ 21"
    unfolding s by (rule fl64_small)
qed

lemma binade_unique:
  assumes "pow2 b \<le> \<bar>q\<bar>" and "\<bar>q\<bar> < pow2 (b + 1)"
  shows "binade q = b"
proof -
  have q: "q \<noteq> 0" using assms(1) pow2_pos[of b] by auto
  note bb = binade_bounds[OF q]
  have "\<not> b < binade q"
  proof
    assume "b < binade q"
    then have "pow2 (b + 1) \<le> pow2 (binade q)" by (intro pow2_mono) simp
    with bb(1) assms(2) show False by simp
  qed
  moreover have "\<not> binade q < b"
  proof
    assume "binade q < b"
    then have "pow2 (binade q + 1) \<le> pow2 b" by (intro pow2_mono) simp
    with bb(2) assms(1) show False by simp
  qed
  ultimately show ?thesis by simp
qed

lemma round_half_even_eqI:
  assumes "of_int m - 1 / 2 < t" and "t < of_int m + 1 / 2"
  shows "round_half_even t = m"
proof -
  have "\<bar>of_int (round_half_even t) - t\<bar> \<le> 1 / 2" by (rule round_half_even_near)
  with assms have "\<bar>(of_int (round_half_even t) :: rat) - of_int m\<bar> < 1" by linarith
  then have "\<bar>round_half_even t - m\<bar> < 1"
    by (metis of_int_1 of_int_abs of_int_diff of_int_less_iff)
  then show ?thesis by simp
qed

lemma fl64_eqI:
  assumes b: "pow2 b \<le> \<bar>q\<bar>" "\<bar>q\<bar> < pow2 (b + 1)"
    and e: "e = max (b - 52) (- 1074)"
    and m: "of_int m - 1 / 2 < \<bar>q\<bar> / pow2 e" "\<bar>q\<bar> / pow2 e < of_int m + 1 / 2"
    and small: "of_int m * pow2 e < pow2 1024"
  shows "fl64 q = Fin (sgn q * (of_int m * pow2 e))"
proof -
  have q: "q \<noteq> 0" using b(1) pow2_pos[of b] by auto
  have bq: "binade q = b" by (rule binade_unique[OF b])
  have r: "round_half_even (\<bar>q\<bar> / pow2 e) = m" by (rule round_half_even_eqI[OF m])
  show ?thesis
    using q small by (simp add: fl64_def Let_def bq r flip: e)
qed

lemma pow2_m7: "pow2 (- 7) = 1 / 128" and pow2_m6: "pow2 (- 6) = 1 / 64"
  and pow2_m59: "pow2 (- 59) = 1 / 576460752303423488"
  by (simp_all add: pow2_def)

lemma pow2_1024_large: "1 \<le> pow2 1024"
  using pow2_mono[of 0 1024] by (simp add: pow2_def)

lemma scenario_quotient:
  "fl64 (15000 / 1000000) = Fin (8646911284551352 / 576460752303423488)"
proof -
  have "fl64 (15000 / 1000000) = Fin (sgn (15000 / 1000000) * (of_int 8646911284551352 * pow2 (- 59)))"
  proof (rule fl64_eqI[where b = "- 7"])
    show "pow2 (- 7) \<le> \<bar>15000 / 1000000\<bar>" by (simp add: pow2_m7)
    show "\<bar>15000 / 1000000\<bar> < pow2 (- 7 + 1)" by (simp add: pow2_m6)
    show "- 59 = max (- 7 - 52) (- 1074 :: int)" by simp
    show "of_int 8646911284551352 - 1 / 2 < \<bar>15000 / 1000000\<bar> / pow2 (- 59)"
      by (simp add: pow2_m59)
    show "\<bar>15000 / 1000000\<bar> / pow2 (- 59) < of_int 8646911284551352 + 1 / 2"
      by (simp add: pow2_m59)
    show "of_int 8646911284551352 * pow2 (- 59) < pow2 1024"
      using pow2_1024_large by (simp add: pow2_m59)
  qed
  then show ?thesis by (simp add: pow2_m59)
qed

lemma scenario_cell_text:
  "fixed_notation (Fin (8646911284551352 / 576460752303423488)) 2 = lit ''0.01''"
  by code_simp

lemma scenario_round: "round_places (8646911284551352 / 576460752303423488) 2 = 1 / 100"
proof -
  have "\<lfloor>\<bar>8646911284551352 / 576460752303423488 :: rat\<bar> * 10 ^ 2 + 1 / 2\<rfloor> = 1"
    by (rule floor_unique) simp_all
  then show ?thesis by (simp add: round_places_def)
qed

end
